theory Spec2Isabelle
  imports Complex_Main "HOL-Library.AList"
begin

section \<open>Numbers: the quotient of two integers and its one-decimal rendering\<close>

text \<open>
  Every average of the Averages page is computed as \<^verbatim>\<open>+(total / count).toFixed(1)\<close>.
  The counts of the store are integers and are modelled as \<open>int\<close>; JavaScript holds them
  as IEEE 754 binary64 numbers. A total is built with \<^verbatim>\<open>+=\<close>, which rounds every sum
  to a 53-bit significand, and is an integer again. The quotient is a binary64 number: the
  value \<open>mant / 2 ^ scale\<close> nearest to the exact quotient, with a 53-bit significand and
  ties resolved to the even significand.
\<close>

record double =
  mant :: int
  scale :: nat

text \<open>
  The least \<open>k' \<ge> k\<close> with \<open>2 ^ 52 \<le> s * 2 ^ k' / n\<close>: the binary exponent that
  normalises the quotient of two positive integers below \<open>2 ^ 53\<close>.
\<close>

function norm_shift :: "int \<Rightarrow> int \<Rightarrow> nat \<Rightarrow> nat" where
  "norm_shift s n k =
     (if s \<le> 0 \<or> 2 ^ 52 * n \<le> s * 2 ^ k then k else norm_shift s n (Suc k))"
  by pat_completeness auto
termination
proof (relation "measure (\<lambda>(s, n, k). nat (2 ^ 52 * n - s * 2 ^ k))")
  show "wf (measure (\<lambda>(s, n, k). nat (2 ^ 52 * n - s * 2 ^ k)))"
    by simp
next
  fix s n :: int and k :: nat
  assume "\<not> (s \<le> 0 \<or> 2 ^ 52 * n \<le> s * 2 ^ k)"
  then have pos: "0 < s" and below: "s * 2 ^ k < 2 ^ 52 * n"
    by simp_all
  from pos have "0 < s * 2 ^ k"
    by simp
  then have "s * 2 ^ k < s * 2 ^ Suc k"
    by simp
  with below show "((s, n, Suc k), (s, n, k)) \<in> measure (\<lambda>(s, n, k). nat (2 ^ 52 * n - s * 2 ^ k))"
    by simp
qed

text \<open>Rounding the quotient \<open>a / n\<close> of integers to an integer, ties to even.\<close>

definition round_half_even :: "int \<Rightarrow> int \<Rightarrow> int" where
  "round_half_even a n =
     (let q = a div n; r = a mod n
      in if 2 * r < n then q
         else if n < 2 * r then q + 1
         else if even q then q else q + 1)"

text \<open>
  The least \<open>k' \<ge> k\<close> with \<open>a < 2 ^ (53 + k')\<close>: the number of binary digits of a
  non-negative integer beyond the 53 that a significand holds.
\<close>

function excess_bits :: "int \<Rightarrow> nat \<Rightarrow> nat" where
  "excess_bits a k = (if a < 2 ^ (53 + k) then k else excess_bits a (Suc k))"
  by pat_completeness auto
termination
proof (relation "measure (\<lambda>(a, k). nat a - k)")
  show "wf (measure (\<lambda>(a, k). nat a - k))"
    by simp
next
  fix a :: int and k :: nat
  assume "\<not> a < 2 ^ (53 + k)"
  then have "2 ^ (53 + k) \<le> a" by simp
  moreover have "int k < 2 ^ k" by (rule of_nat_less_two_power)
  moreover have "(2::int) ^ k \<le> 2 ^ (53 + k)" by (simp add: power_increasing)
  ultimately have "int k < a" by linarith
  then show "((a, Suc k), (a, k)) \<in> measure (\<lambda>(a, k). nat a - k)"
    by simp
qed

text \<open>
  The binary64 number nearest to an integer: the integer itself up to \<open>2 ^ 53\<close> in
  magnitude, beyond that the nearest multiple of the unit of its 53-bit significand, ties to
  the even significand. (Beyond \<open>2 ^ 1024\<close> JavaScript yields \<^verbatim>\<open>Infinity\<close>, which an
  \<open>int\<close> does not represent; no statement below reaches that range.)
\<close>

definition round53 :: "int \<Rightarrow> int" where
  "round53 x = (let k = excess_bits \<bar>x\<bar> 0 in sgn x * (round_half_even \<bar>x\<bar> (2 ^ k) * 2 ^ k))"

text \<open>The operator \<^verbatim>\<open>+\<close> on two integers that are binary64 numbers.\<close>

definition js_add :: "int \<Rightarrow> int \<Rightarrow> int" where
  "js_add a b = round53 (a + b)"

text \<open>
  The operator \<^verbatim>\<open>/\<close> on an integer \<open>s\<close> and a positive integer \<open>n\<close>, both below
  \<open>2 ^ 53\<close> in magnitude, as a total within the safe range below and a count of array
  elements are. The sign is carried by the significand.
\<close>

definition js_divide :: "int \<Rightarrow> int \<Rightarrow> double" where
  "js_divide s n =
     (if s = 0 then \<lparr>mant = 0, scale = 0\<rparr>
      else let k = norm_shift \<bar>s\<bar> n 0;
               m = round_half_even (\<bar>s\<bar> * 2 ^ k) n
           in \<lparr>mant = sgn s * m, scale = k\<rparr>)"

text \<open>
  \<^verbatim>\<open>Number.prototype.toFixed(1)\<close> followed by unary \<^verbatim>\<open>+\<close>. For \<open>x \<ge> 0\<close>,
  \<^verbatim>\<open>toFixed\<close> picks the integer \<open>t\<close> for which \<open>t / 10 - x\<close> is as close to zero as
  possible, the larger one if there are two; a negative \<open>x\<close> is rendered as the minus sign
  followed by the rendering of \<open>- x\<close>. Unary plus reads the digits back, so the result is the
  number of tenths \<open>t\<close>: the value returned stands for the decimal \<open>t / 10\<close>.
\<close>

definition toFixed1 :: "double \<Rightarrow> int" where
  "toFixed1 x =
     (let p = 2 ^ scale x
      in if mant x < 0 then - ((20 * (- mant x) + p) div (2 * p))
         else (20 * mant x + p) div (2 * p))"

definition average1 :: "int \<Rightarrow> int \<Rightarrow> int" where
  "average1 s n = toFixed1 (js_divide s n)"

text \<open>
  The reading of "rounded to one decimal, half up" that the averages are compared with:
  \<open>\<lfloor>10 * s / n + 1 / 2\<rfloor>\<close> tenths, computed on the exact quotient.
\<close>

definition round_half_up1 :: "int \<Rightarrow> int \<Rightarrow> int" where
  "round_half_up1 s n = \<lfloor>10 * (of_int s / of_int n :: rat) + 1 / 2\<rfloor>"

text \<open>\<open>t\<close> tenths is a one-decimal value nearest to \<open>s / n\<close>.\<close>

definition nearest_tenth :: "int \<Rightarrow> int \<Rightarrow> int \<Rightarrow> bool" where
  "nearest_tenth t s n \<longleftrightarrow> \<bar>of_int t / 10 - (of_int s / of_int n :: rat)\<bar> \<le> 1 / 20"

text \<open>The quotient \<open>s / n\<close> lies exactly halfway between two consecutive tenths.\<close>

definition midpoint1 :: "int \<Rightarrow> int \<Rightarrow> bool" where
  "midpoint1 s n \<longleftrightarrow> 2 * n dvd 20 * s + n"

text \<open>
  The quotient rounded to one decimal with ties away from zero, in tenths: what
  \<^verbatim>\<open>toFixed(1)\<close> would give on the exact quotient.
\<close>

definition half_away1 :: "int \<Rightarrow> int \<Rightarrow> int" where
  "half_away1 s n = sgn s * \<lfloor>10 * (of_int \<bar>s\<bar> / of_int n :: rat) + 1 / 2\<rfloor>"

text \<open>The binary64 quotient of \<open>s\<close> by \<open>n\<close> is smaller in magnitude than the exact
  quotient: the division has rounded toward zero.\<close>

definition quotient_short :: "int \<Rightarrow> int \<Rightarrow> bool" where
  "quotient_short s n \<longleftrightarrow>
     \<bar>mant (js_divide s n)\<bar> * n < \<bar>s\<bar> * 2 ^ scale (js_divide s n)"

text \<open>The range of totals in which the quotient and its rendering are modelled: a total
  times 20 stays below \<open>2 ^ 53\<close>.\<close>

definition safe_total :: "int \<Rightarrow> bool" where
  "safe_total s \<longleftrightarrow> 20 * \<bar>s\<bar> < 2 ^ 53"


section \<open>Data model\<close>

text \<open>
  The five counters that statistics rows, running totals and averages share. In a row of
  the store they are \<^verbatim>\<open>number | null\<close> (\<open>int option\<close>); in totals they are integers;
  in averages they are numbers of tenths.
\<close>

record 'n Counts =
  points :: 'n
  rebounds :: 'n
  assists :: 'n
  steals :: 'n
  blocks :: 'n

text \<open>
  Rows of the store, after \<^verbatim>\<open>Database['public']['Tables']\<close>. The timestamps, a
  player's position and jersey number are left out: no operation below reads them.
  Identifiers are the uuid strings the store generates.
\<close>

record player_row =
  pl_id :: string
  pl_name :: string
  pl_user_id :: string

record event_row =
  ev_id :: string
  ev_title :: string
  ev_date :: string
  ev_location :: "string option"
  ev_opponent :: "string option"
  ev_team_score :: "int option"
  ev_opponent_score :: "int option"
  ev_result :: "string option"
  ev_type :: string
  ev_user_id :: string

record attendance_row =
  at_id :: string
  at_event_id :: string
  at_player_id :: string
  at_user_id :: string
  at_present :: bool

record stat_row = "int option Counts" +
  st_id :: string
  st_event_id :: string
  st_player_id :: string
  st_user_id :: string

record store =
  players :: "player_row list"
  events :: "event_row list"
  attendance :: "attendance_row list"
  statistics :: "stat_row list"


section \<open>The Averages page\<close>

record PlayerAverage = "int Counts" +
  name :: string
  gamesPlayed :: int

record TeamAverage = "int Counts" +
  games :: int

record TeamTotals = "int Counts" +
  gamesCount :: int

text \<open>\<^verbatim>\<open>stat.points || 0\<close>: a null counter (and zero itself) reads as zero.\<close>

fun or0 :: "int option \<Rightarrow> int" where
  "or0 None = 0"
| "or0 (Some v) = v"

subsection \<open>Objects indexed by player identifier\<close>

text \<open>
  The pages keep their per-player data in plain objects indexed by the player identifier
  (\<^verbatim>\<open>playerStats: Record<string, PlayerAverage>\<close> here, \<^verbatim>\<open>initialStats\<close> and
  \<^verbatim>\<open>playerAttendance\<close> in the forms). Such an object is modelled as an association
  list in insertion order: assigning to a key that is present replaces its value in place,
  a new key goes to the end, a lookup finds what was assigned and nothing else, and
  \<^verbatim>\<open>Object.keys\<close> and \<^verbatim>\<open>Object.values\<close> list the entries in that order.

  A JavaScript object behaves so for the keys called plain below. It does not for a key
  that is a string of decimal digits (integer indices are listed first, in numeric order),
  nor for the name of a member that every object inherits from \<^verbatim>\<open>Object.prototype\<close>
  (a lookup finds the inherited member, and an assignment to \<^verbatim>\<open>__proto__\<close> adds no
  entry). The statements about these pages are made for plain keys. The identifiers of the
  store are uuid strings in the form 8-4-4-4-12, which are plain keys.
\<close>

definition integer_key :: "string \<Rightarrow> bool" where
  "integer_key k \<longleftrightarrow> k \<noteq> [] \<and> list_all (\<lambda>c. c \<in> set ''0123456789'') k"

definition inherited_key :: "string \<Rightarrow> bool" where
  "inherited_key k \<longleftrightarrow>
     k \<in> set [''constructor'', ''__proto__'', ''hasOwnProperty'', ''isPrototypeOf'',
               ''propertyIsEnumerable'', ''toLocaleString'', ''toString'', ''valueOf'',
               ''__defineGetter__'', ''__defineSetter__'', ''__lookupGetter__'',
               ''__lookupSetter__'']"

definition plain_key :: "string \<Rightarrow> bool" where
  "plain_key k \<longleftrightarrow> \<not> integer_key k \<and> \<not> inherited_key k"

definition uuid_text :: "string \<Rightarrow> bool" where
  "uuid_text k \<longleftrightarrow>
     length k = 36
     \<and> list_all (\<lambda>i. if i \<in> set [8, 13, 18, 23] then k ! i = CHR ''-''
                       else k ! i \<in> set ''0123456789abcdef'') [0..<36]"

subsection \<open>calculateAverages\<close>

text \<open>
  The entry that the first loop assigns to \<^verbatim>\<open>playerStats[player.id]\<close>, and the
  assignment: for a plain key the entry replaces the one of that key or goes to the end.
\<close>

definition zero_average :: "player_row \<Rightarrow> PlayerAverage" where
  "zero_average player =
     \<lparr>points = 0, rebounds = 0, assists = 0, steals = 0, blocks = 0,
      name = pl_name player, gamesPlayed = 0\<rparr>"

definition init_player :: "(string \<times> PlayerAverage) list \<Rightarrow> player_row \<Rightarrow> (string \<times> PlayerAverage) list" where
  "init_player playerStats player = AList.update (pl_id player) (zero_average player) playerStats"

text \<open>
  The six \<^verbatim>\<open>+=\<close> on the entry of a player, and the six on the team totals. The five
  sums are binary64 additions. The two counters are incremented once per element of an
  array, whose length is below \<open>2 ^ 32\<close>: their increments are exact.
\<close>

definition add_to_player :: "PlayerAverage \<Rightarrow> stat_row \<Rightarrow> PlayerAverage" where
  "add_to_player a stat =
     a\<lparr>points := js_add (points a) (or0 (points stat)),
       rebounds := js_add (rebounds a) (or0 (rebounds stat)),
       assists := js_add (assists a) (or0 (assists stat)),
       steals := js_add (steals a) (or0 (steals stat)),
       blocks := js_add (blocks a) (or0 (blocks stat)),
       gamesPlayed := gamesPlayed a + 1\<rparr>"

definition add_to_team :: "TeamTotals \<Rightarrow> stat_row \<Rightarrow> TeamTotals" where
  "add_to_team teamTotals stat =
     teamTotals\<lparr>points := js_add (points teamTotals) (or0 (points stat)),
       rebounds := js_add (rebounds teamTotals) (or0 (rebounds stat)),
       assists := js_add (assists teamTotals) (or0 (assists stat)),
       steals := js_add (steals teamTotals) (or0 (steals stat)),
       blocks := js_add (blocks teamTotals) (or0 (blocks stat)),
       gamesCount := gamesCount teamTotals + 1\<rparr>"

text \<open>
  The body of \<^verbatim>\<open>stats.forEach\<close>: a row counts, for its player and for the team, only
  if \<^verbatim>\<open>playerStats[playerId]\<close> exists. For a plain key that is the entry assigned
  to the key, if any; an entry is an object, hence truthy.
\<close>

definition add_stat ::
  "(string \<times> PlayerAverage) list \<times> TeamTotals \<Rightarrow> stat_row \<Rightarrow> (string \<times> PlayerAverage) list \<times> TeamTotals" where
  "add_stat acc stat =
     (let playerStats = fst acc; teamTotals = snd acc; playerId = st_player_id stat
      in case map_of playerStats playerId of
           None \<Rightarrow> (playerStats, teamTotals)
         | Some a \<Rightarrow>
             (AList.update playerId (add_to_player a stat) playerStats,
              add_to_team teamTotals stat))"

definition player_average :: "PlayerAverage \<Rightarrow> PlayerAverage" where
  "player_average player =
     (let gamesPlayed = (if gamesPlayed player = 0 then 1 else gamesPlayed player)
      in player\<lparr>points := average1 (points player) gamesPlayed,
                rebounds := average1 (rebounds player) gamesPlayed,
                assists := average1 (assists player) gamesPlayed,
                steals := average1 (steals player) gamesPlayed,
                blocks := average1 (blocks player) gamesPlayed\<rparr>)"

text \<open>The two \<^verbatim>\<open>forEach\<close> loops: the accumulators after the players and the statistics.\<close>

definition accumulate ::
  "player_row list \<Rightarrow> stat_row list \<Rightarrow> (string \<times> PlayerAverage) list \<times> TeamTotals" where
  "accumulate players' stats =
     foldl add_stat
       (foldl init_player [] players',
        \<lparr>points = 0, rebounds = 0, assists = 0, steals = 0, blocks = 0, gamesCount = 0\<rparr>)
       stats"

definition calculateAverages ::
  "player_row list \<Rightarrow> stat_row list \<Rightarrow> event_row list \<Rightarrow> PlayerAverage list \<times> TeamAverage" where
  "calculateAverages players' stats events' =
     (let acc = accumulate players' stats;
          teamTotals = snd acc;
          averages = map (player_average \<circ> snd) (fst acc);
          playersWithStats = filter (\<lambda>player. 0 < gamesPlayed player) averages;
          totalGames = (if length events' = 0 then 1 else int (length events'));
          teamAvg = \<lparr>points = average1 (points teamTotals) totalGames,
                     rebounds = average1 (rebounds teamTotals) totalGames,
                     assists = average1 (assists teamTotals) totalGames,
                     steals = average1 (steals teamTotals) totalGames,
                     blocks = average1 (blocks teamTotals) totalGames,
                     games = totalGames\<rparr>
      in (playersWithStats, teamAvg))"

text \<open>The two results of \<^verbatim>\<open>calculateAverages\<close>, under the names the specification uses.\<close>

definition computePlayerAverages :: "player_row list \<Rightarrow> stat_row list \<Rightarrow> PlayerAverage list" where
  "computePlayerAverages players' stats = fst (calculateAverages players' stats [])"

definition computeTeamAverages :: "player_row list \<Rightarrow> stat_row list \<Rightarrow> event_row list \<Rightarrow> TeamAverage" where
  "computeTeamAverages players' stats games' = snd (calculateAverages players' stats games')"

subsection \<open>getPlayerStats\<close>

text \<open>
  \<^verbatim>\<open>getPlayerStats\<close>, the per-player series (the specification's
  \<^verbatim>\<open>getPlayerSeries\<close>). The component state \<^verbatim>\<open>statistics\<close> and \<^verbatim>\<open>events\<close> is
  passed in; \<open>toLocaleDateString\<close> stands for
  \<^verbatim>\<open>new Date(d).toLocaleDateString()\<close>, which depends on the browser's locale.
\<close>

record PlayerProgress = "int Counts" +
  event :: string
  date :: string

definition getPlayerStats ::
  "(string \<Rightarrow> string) \<Rightarrow> stat_row list \<Rightarrow> event_row list \<Rightarrow> string \<Rightarrow> PlayerProgress list" where
  "getPlayerStats toLocaleDateString statistics' events' playerId =
     (let playerStats = filter (\<lambda>stat. st_player_id stat = playerId) statistics'
      in if length playerStats = 0 then []
         else map (\<lambda>stat.
                let event' = find (\<lambda>e. ev_id e = st_event_id stat) events'
                in \<lparr>points = or0 (points stat), rebounds = or0 (rebounds stat),
                    assists = or0 (assists stat), steals = or0 (steals stat),
                    blocks = or0 (blocks stat),
                    event = (case event' of
                               Some e \<Rightarrow> if ev_title e = [] then ''Match inconnu'' else ev_title e
                             | None \<Rightarrow> ''Match inconnu''),
                    date = (case event' of
                              Some e \<Rightarrow> if ev_date e = [] then [] else toLocaleDateString (ev_date e)
                            | None \<Rightarrow> [])\<rparr>) playerStats)"


section \<open>The game form\<close>

text \<open>
  A score as a JavaScript value. The form yields \<^verbatim>\<open>number | undefined\<close>: the schema
  accepts a number or turns the text of the input into one, an empty or unreadable text
  into \<^verbatim>\<open>undefined\<close>, and when a saved game is edited the form is reset with
  \<^verbatim>\<open>editingGame.team_score || undefined\<close>, so the store's \<^verbatim>\<open>null\<close> never reaches the
  derivation: an absent score is \<open>Undefined\<close>. \<open>Null\<close> is the store's value, which
  \<^verbatim>\<open>ToNumber\<close> reads as 0.
\<close>

datatype score = Undefined | Null | Num int

text \<open>\<^verbatim>\<open>ToNumber\<close>, with \<open>None\<close> for \<^verbatim>\<open>NaN\<close>; relational operators are false on it.\<close>

fun ToNumber :: "score \<Rightarrow> int option" where
  "ToNumber Undefined = None"
| "ToNumber Null = Some 0"
| "ToNumber (Num v) = Some v"

definition js_less :: "score \<Rightarrow> score \<Rightarrow> bool" where
  "js_less a b = (case (ToNumber a, ToNumber b) of (Some x, Some y) \<Rightarrow> x < y | _ \<Rightarrow> False)"

text \<open>The result derivation at the head of \<^verbatim>\<open>onSubmit\<close> (the specification's
  \<^verbatim>\<open>deriveGameResult\<close>).\<close>

definition deriveGameResult :: "score \<Rightarrow> score \<Rightarrow> string option" where
  "deriveGameResult team_score opponent_score =
     (if team_score \<noteq> Undefined \<and> opponent_score \<noteq> Undefined then
        if js_less opponent_score team_score then Some ''win''
        else if js_less team_score opponent_score then Some ''loss''
        else Some ''draw''
      else None)"

text \<open>
  \<^verbatim>\<open>GameFormValues\<close>, as the schema infers it: optional fields are \<open>None\<close> when
  \<^verbatim>\<open>undefined\<close>. The date is carried as its \<^verbatim>\<open>toISOString()\<close>.
\<close>

record GameFormValues =
  v_title :: string
  v_date :: string
  v_location :: "string option"
  v_opponent :: "string option"
  v_team_score :: "int option"
  v_opponent_score :: "int option"

fun form_score :: "int option \<Rightarrow> score" where
  "form_score None = Undefined"
| "form_score (Some v) = Num v"

text \<open>\<^verbatim>\<open>values.location || null\<close>: an absent or empty text is stored as null.\<close>

fun or_null :: "string option \<Rightarrow> string option" where
  "or_null None = None"
| "or_null (Some v) = (if v = [] then None else Some v)"


section \<open>The hosted store\<close>

text \<open>
  The store is reached through requests. A request can fail for reasons outside the
  program (network, policy): \<open>faults\<close> is the schedule of the coming requests, \<open>True\<close>
  for one that fails; once it is exhausted nothing fails. The store names each inserted
  row with the next identifier of \<open>uuid\<close>.
\<close>

datatype error = StoreError

record world =
  db :: store
  faults :: "bool list"
  uuid :: "nat \<Rightarrow> string"
  issued :: nat

type_synonym 'a request = "world \<Rightarrow> (error + 'a) \<times> world"

definition request :: "'a request \<Rightarrow> 'a request" where
  "request serve w =
     (case faults w of
        [] \<Rightarrow> serve w
      | failed # rest \<Rightarrow>
          if failed then (Inl StoreError, w\<lparr>faults := rest\<rparr>) else serve (w\<lparr>faults := rest\<rparr>))"

text \<open>\<^verbatim>\<open>const { data, error } = await ...; if (error) throw error;\<close> and what follows.\<close>

definition andThen :: "'a request \<Rightarrow> ('a \<Rightarrow> 'b request) \<Rightarrow> 'b request" where
  "andThen m f w = (case m w of (Inl e, w') \<Rightarrow> (Inl e, w') | (Inr a, w') \<Rightarrow> f a w')"

text \<open>\<^verbatim>\<open>await ...;\<close> with the response dropped: an error of the request goes unnoticed.\<close>

definition ignore_response :: "'a request \<Rightarrow> unit request" where
  "ignore_response m w = (Inr (), snd (m w))"

definition on_db :: "(store \<Rightarrow> store) \<Rightarrow> world \<Rightarrow> world" where
  "on_db f w = w\<lparr>db := f (db w)\<rparr>"

definition fresh :: "world \<Rightarrow> string \<times> world" where
  "fresh w = (uuid w (issued w), w\<lparr>issued := Suc (issued w)\<rparr>)"

subsection \<open>attendance\<close>

definition attendance_key :: "attendance_row \<Rightarrow> string \<times> string \<times> string" where
  "attendance_key r = (at_event_id r, at_player_id r, at_user_id r)"

text \<open>\<^verbatim>\<open>.select('*').eq(event_id).eq(player_id).eq(user_id).maybeSingle()\<close>: no row is
  null, one row is that row, several rows are an error.\<close>

definition select_attendance_maybeSingle ::
  "string \<Rightarrow> string \<Rightarrow> string \<Rightarrow> attendance_row option request" where
  "select_attendance_maybeSingle event_id player_id user_id =
     request (\<lambda>w.
       case filter (\<lambda>r. attendance_key r = (event_id, player_id, user_id)) (attendance (db w)) of
         [] \<Rightarrow> (Inr None, w)
       | [r] \<Rightarrow> (Inr (Some r), w)
       | _ \<Rightarrow> (Inl StoreError, w))"

definition update_attendance :: "string \<Rightarrow> bool \<Rightarrow> unit request" where
  "update_attendance row_id present =
     request (\<lambda>w. (Inr (),
       on_db (\<lambda>s. s\<lparr>attendance :=
         map (\<lambda>r. if at_id r = row_id then r\<lparr>at_present := present\<rparr> else r) (attendance s)\<rparr>) w))"

definition insert_attendance :: "string \<Rightarrow> string \<Rightarrow> string \<Rightarrow> bool \<Rightarrow> unit request" where
  "insert_attendance event_id player_id user_id present =
     request (\<lambda>w. let (new_id, w') = fresh w in (Inr (),
       on_db (\<lambda>s. s\<lparr>attendance := attendance s @
         [\<lparr>at_id = new_id, at_event_id = event_id, at_player_id = player_id,
           at_user_id = user_id, at_present = present\<rparr>]\<rparr>) w'))"

definition delete_attendance_of_player :: "string \<Rightarrow> unit request" where
  "delete_attendance_of_player player_id =
     request (\<lambda>w. (Inr (),
       on_db (\<lambda>s. s\<lparr>attendance := filter (\<lambda>r. at_player_id r \<noteq> player_id) (attendance s)\<rparr>) w))"

subsection \<open>statistics\<close>

definition statistics_key :: "stat_row \<Rightarrow> string \<times> string \<times> string" where
  "statistics_key r = (st_event_id r, st_player_id r, st_user_id r)"

definition select_statistics_of_event :: "string \<Rightarrow> string \<Rightarrow> stat_row list request" where
  "select_statistics_of_event event_id user_id =
     request (\<lambda>w. (Inr (filter (\<lambda>r. st_event_id r = event_id \<and> st_user_id r = user_id)
                           (statistics (db w))), w))"

definition update_statistics :: "string \<Rightarrow> int option Counts \<Rightarrow> unit request" where
  "update_statistics row_id c =
     request (\<lambda>w. (Inr (),
       on_db (\<lambda>s. s\<lparr>statistics :=
         map (\<lambda>r. if st_id r = row_id
                  then r\<lparr>points := points c, rebounds := rebounds c, assists := assists c,
                         steals := steals c, blocks := blocks c\<rparr>
                  else r) (statistics s)\<rparr>) w))"

definition insert_statistics :: "string \<Rightarrow> string \<Rightarrow> string \<Rightarrow> int option Counts \<Rightarrow> unit request" where
  "insert_statistics player_id event_id user_id c =
     request (\<lambda>w. let (new_id, w') = fresh w in (Inr (),
       on_db (\<lambda>s. s\<lparr>statistics := statistics s @
         [\<lparr>points = points c, rebounds = rebounds c, assists = assists c,
           steals = steals c, blocks = blocks c,
           st_id = new_id, st_event_id = event_id, st_player_id = player_id,
           st_user_id = user_id\<rparr>]\<rparr>) w'))"

definition delete_statistics_of_player :: "string \<Rightarrow> unit request" where
  "delete_statistics_of_player player_id =
     request (\<lambda>w. (Inr (),
       on_db (\<lambda>s. s\<lparr>statistics := filter (\<lambda>r. st_player_id r \<noteq> player_id) (statistics s)\<rparr>) w))"

subsection \<open>players\<close>

text \<open>\<^verbatim>\<open>.eq('user_id', ...).order('name')\<close>; \<open>collate\<close> is the sort key of the store's
  collation.\<close>

definition select_players :: "(string \<Rightarrow> 'k::linorder) \<Rightarrow> string \<Rightarrow> player_row list request" where
  "select_players collate user_id =
     request (\<lambda>w. (Inr (sort_key (collate \<circ> pl_name)
                           (filter (\<lambda>r. pl_user_id r = user_id) (players (db w)))), w))"

text \<open>
  \<^verbatim>\<open>statistics_player_id_fkey\<close> and \<^verbatim>\<open>attendance_player_id_fkey\<close> reference
  \<^verbatim>\<open>players.id\<close>. What the store does with the referencing rows when a player is
  deleted is not part of the generated types: either the deletion is refused while a row
  references the player, or the referencing rows go with it.
\<close>

datatype fk_rule = NoAction | Cascade

definition delete_player :: "fk_rule \<Rightarrow> fk_rule \<Rightarrow> string \<Rightarrow> unit request" where
  "delete_player statistics_fk attendance_fk player_id =
     request (\<lambda>w.
       let s = db w
       in if (statistics_fk = NoAction \<and> (\<exists>r \<in> set (statistics s). st_player_id r = player_id))
           \<or> (attendance_fk = NoAction \<and> (\<exists>r \<in> set (attendance s). at_player_id r = player_id))
          then (Inl StoreError, w)
          else (Inr (),
            on_db (\<lambda>s. s\<lparr>players := filter (\<lambda>r. pl_id r \<noteq> player_id) (players s),
                         statistics := filter (\<lambda>r. st_player_id r \<noteq> player_id) (statistics s),
                         attendance := filter (\<lambda>r. at_player_id r \<noteq> player_id) (attendance s)\<rparr>) w))"

subsection \<open>events\<close>

text \<open>\<^verbatim>\<open>.select('title').eq('id', gameId).single()\<close>: anything but one row is an error.\<close>

definition select_event_title_single :: "string \<Rightarrow> string request" where
  "select_event_title_single event_id =
     request (\<lambda>w.
       case filter (\<lambda>r. ev_id r = event_id) (events (db w)) of
         [r] \<Rightarrow> (Inr (ev_title r), w)
       | _ \<Rightarrow> (Inl StoreError, w))"

text \<open>The payload \<^verbatim>\<open>gameData\<close> is an event row whose \<open>ev_id\<close> is not sent.\<close>

definition update_event :: "string \<Rightarrow> event_row \<Rightarrow> unit request" where
  "update_event row_id gameData =
     request (\<lambda>w. (Inr (),
       on_db (\<lambda>s. s\<lparr>events :=
         map (\<lambda>r. if ev_id r = row_id then gameData\<lparr>ev_id := ev_id r\<rparr> else r) (events s)\<rparr>) w))"

definition insert_event :: "event_row \<Rightarrow> unit request" where
  "insert_event gameData =
     request (\<lambda>w. let (new_id, w') = fresh w in (Inr (),
       on_db (\<lambda>s. s\<lparr>events := events s @ [gameData\<lparr>ev_id := new_id\<rparr>]\<rparr>) w'))"


section \<open>The pages that write\<close>

text \<open>
  An operation of a page catches every error it throws and reports through a toast; it is
  modelled as returning the toast with the world it leaves behind.
\<close>

datatype toast = Success | Destructive | NoToast

definition report :: "(error + 'a) \<times> world \<Rightarrow> toast \<times> world" where
  "report r = (case r of (Inl e, w) \<Rightarrow> (Destructive, w) | (Inr a, w) \<Rightarrow> (Success, w))"

subsection \<open>GameFormDialog\<close>

text \<open>
  \<^verbatim>\<open>onSubmit\<close> receives the values the schema has validated. Without a signed-in user it
  returns at once. Closing the dialog and reloading the list after a success are left out:
  they write nothing.
\<close>

definition gameData :: "string \<Rightarrow> GameFormValues \<Rightarrow> event_row" where
  "gameData user_id values =
     \<lparr>ev_id = [],
      ev_title = v_title values,
      ev_date = v_date values,
      ev_location = or_null (v_location values),
      ev_opponent = or_null (v_opponent values),
      ev_team_score = v_team_score values,
      ev_opponent_score = v_opponent_score values,
      ev_result = deriveGameResult (form_score (v_team_score values))
                                   (form_score (v_opponent_score values)),
      ev_type = ''game'',
      ev_user_id = user_id\<rparr>"

definition onSubmit :: "string option \<Rightarrow> event_row option \<Rightarrow> GameFormValues \<Rightarrow> world \<Rightarrow> toast \<times> world" where
  "onSubmit user editingGame values w =
     (case user of
        None \<Rightarrow> (NoToast, w)
      | Some user_id \<Rightarrow>
          (case editingGame of
             Some game \<Rightarrow> report (update_event (ev_id game) (gameData user_id values) w)
           | None \<Rightarrow> report (insert_event (gameData user_id values) w)))"

subsection \<open>Attendance\<close>

text \<open>
  \<^verbatim>\<open>for (const playerId of Object.keys(playerAttendance))\<close>, over the entries of the
  record in insertion order; \<open>present\<close> is \<^verbatim>\<open>playerAttendance[playerId]\<close>. The
  page is shown to a signed-in user, whose identifier is \<open>user_id\<close>. Without a selected
  event \<^verbatim>\<open>saveAttendance\<close> shows an error and returns; the history it reloads after a
  success is read only.
\<close>

fun saveAttendance_each :: "string \<Rightarrow> string \<Rightarrow> (string \<times> bool) list \<Rightarrow> unit request" where
  "saveAttendance_each event_id user_id [] w = (Inr (), w)"
| "saveAttendance_each event_id user_id ((playerId, present) # rest) w =
     andThen (select_attendance_maybeSingle event_id playerId user_id)
       (\<lambda>existingData.
          andThen (case existingData of
                     Some row \<Rightarrow> update_attendance (at_id row) present
                   | None \<Rightarrow> insert_attendance event_id playerId user_id present)
            (\<lambda>_ w'. saveAttendance_each event_id user_id rest w')) w"

definition saveAttendance :: "string option \<Rightarrow> string \<Rightarrow> (string \<times> bool) list \<Rightarrow> world \<Rightarrow> toast \<times> world" where
  "saveAttendance selectedEvent user_id playerAttendance w =
     (case selectedEvent of
        None \<Rightarrow> (Destructive, w)
      | Some event_id \<Rightarrow> report (saveAttendance_each event_id user_id playerAttendance w))"

subsection \<open>PlayerStatsForm\<close>

text \<open>An entry of the form: a row of the store with its identifier, or a fresh entry
  without one.\<close>

record PlayerStat = "int option Counts" +
  ps_id :: "string option"
  ps_player_id :: string
  ps_event_id :: string

record StatsForm =
  form_players :: "player_row list"
  playerStats :: "(string \<times> PlayerStat) list"

definition stat_entry :: "string \<Rightarrow> stat_row list \<Rightarrow> string \<Rightarrow> PlayerStat" where
  "stat_entry gameId statsData player_id =
     (case find (\<lambda>stat. st_player_id stat = player_id) statsData of
        Some existingStat \<Rightarrow>
          \<lparr>points = points existingStat, rebounds = rebounds existingStat,
           assists = assists existingStat, steals = steals existingStat,
           blocks = blocks existingStat,
           ps_id = Some (st_id existingStat),
           ps_player_id = st_player_id existingStat,
           ps_event_id = st_event_id existingStat\<rparr>
      | None \<Rightarrow>
          \<lparr>points = Some 0, rebounds = Some 0, assists = Some 0, steals = Some 0,
           blocks = Some 0,
           ps_id = None, ps_player_id = player_id, ps_event_id = gameId\<rparr>)"

definition init_stat ::
  "string \<Rightarrow> stat_row list \<Rightarrow> (string \<times> PlayerStat) list \<Rightarrow> player_row \<Rightarrow> (string \<times> PlayerStat) list" where
  "init_stat gameId statsData initialStats player =
     AList.update (pl_id player) (stat_entry gameId statsData (pl_id player)) initialStats"

text \<open>\<^verbatim>\<open>loadData\<close>: the title of the game, the user's players, the game's statistics; a
  request that fails leaves the state as far as it was set.\<close>

definition loadData ::
  "(string \<Rightarrow> 'k::linorder) \<Rightarrow> string \<Rightarrow> string \<Rightarrow> StatsForm \<Rightarrow> world \<Rightarrow> toast \<times> StatsForm \<times> world" where
  "loadData collate user_id gameId form w =
     (case select_event_title_single gameId w of
        (Inl e, w1) \<Rightarrow> (Destructive, form, w1)
      | (Inr gameTitle, w1) \<Rightarrow>
          (case select_players collate user_id w1 of
             (Inl e, w2) \<Rightarrow> (Destructive, form, w2)
           | (Inr playersData, w2) \<Rightarrow>
               (case select_statistics_of_event gameId user_id w2 of
                  (Inl e, w3) \<Rightarrow> (Destructive, form\<lparr>form_players := playersData\<rparr>, w3)
                | (Inr statsData, w3) \<Rightarrow>
                    (NoToast,
                     \<lparr>form_players = playersData,
                      playerStats = foldl (init_stat gameId statsData) [] playersData\<rparr>,
                     w3))))"

text \<open>
  \<^verbatim>\<open>handleStatChange\<close>: the inputs of the table pass one of the five counter names.
  \<open>parsed\<close> is \<^verbatim>\<open>parseInt(value, 10)\<close>, \<open>None\<close> for \<^verbatim>\<open>NaN\<close>, so that
  \<^verbatim>\<open>numValue\<close> is \<open>or0 parsed\<close>. The entry of the player is copied with that counter
  replaced. For a key without entry the copy has the one counter only; the table shows no
  input for such a key, and the empty \<open>ps_player_id\<close> and \<open>ps_event_id\<close> stand for
  the two missing fields, which nothing reads.
\<close>

datatype stat_name = Points | Rebounds | Assists | Steals | Blocks

fun set_stat :: "stat_name \<Rightarrow> int \<Rightarrow> PlayerStat \<Rightarrow> PlayerStat" where
  "set_stat Points numValue playerStat = playerStat\<lparr>points := Some numValue\<rparr>"
| "set_stat Rebounds numValue playerStat = playerStat\<lparr>rebounds := Some numValue\<rparr>"
| "set_stat Assists numValue playerStat = playerStat\<lparr>assists := Some numValue\<rparr>"
| "set_stat Steals numValue playerStat = playerStat\<lparr>steals := Some numValue\<rparr>"
| "set_stat Blocks numValue playerStat = playerStat\<lparr>blocks := Some numValue\<rparr>"

definition handleStatChange :: "string \<Rightarrow> stat_name \<Rightarrow> int option \<Rightarrow> StatsForm \<Rightarrow> StatsForm" where
  "handleStatChange playerId statName parsed form =
     (let numValue = or0 parsed;
          prev = playerStats form;
          entry = (case map_of prev playerId of
                     Some playerStat \<Rightarrow> playerStat
                   | None \<Rightarrow> \<lparr>points = None, rebounds = None, assists = None, steals = None,
                              blocks = None, ps_id = None, ps_player_id = [], ps_event_id = []\<rparr>)
      in form\<lparr>playerStats := AList.update playerId (set_stat statName numValue entry) prev\<rparr>)"

definition stat_counts :: "PlayerStat \<Rightarrow> int option Counts" where
  "stat_counts playerStat =
     \<lparr>points = points playerStat, rebounds = rebounds playerStat, assists = assists playerStat,
      steals = steals playerStat, blocks = blocks playerStat\<rparr>"

text \<open>
  \<^verbatim>\<open>if (playerStat.id)\<close>: an entry with a non-empty identifier is updated by that
  identifier, any other is inserted with the key of the record, the game of the form and
  the user. The loop stops at the first request that fails. After a success the dialog is
  closed; after an error it stays open and \<^verbatim>\<open>playerStats\<close> is what it was.
\<close>

definition save_entry :: "string \<Rightarrow> string \<Rightarrow> string \<Rightarrow> PlayerStat \<Rightarrow> unit request" where
  "save_entry gameId user_id playerId playerStat =
     (case ps_id playerStat of
        Some row_id \<Rightarrow>
          if row_id = [] then insert_statistics playerId gameId user_id (stat_counts playerStat)
          else update_statistics row_id (stat_counts playerStat)
      | None \<Rightarrow> insert_statistics playerId gameId user_id (stat_counts playerStat))"

fun saveAllStats_each :: "string \<Rightarrow> string \<Rightarrow> (string \<times> PlayerStat) list \<Rightarrow> unit request" where
  "saveAllStats_each gameId user_id [] w = (Inr (), w)"
| "saveAllStats_each gameId user_id ((playerId, playerStat) # rest) w =
     andThen (save_entry gameId user_id playerId playerStat)
       (\<lambda>_ w'. saveAllStats_each gameId user_id rest w') w"

definition saveAllStats :: "string option \<Rightarrow> string \<Rightarrow> StatsForm \<Rightarrow> world \<Rightarrow> toast \<times> world" where
  "saveAllStats user gameId form w =
     (case user of
        None \<Rightarrow> (NoToast, w)
      | Some user_id \<Rightarrow>
          if user_id = [] then (NoToast, w)
          else report (saveAllStats_each gameId user_id (playerStats form) w))"

subsection \<open>Players\<close>

text \<open>
  \<^verbatim>\<open>deletePlayer\<close> deletes the statistics of the player, then the attendance, then the
  player. Only the response of the last request is inspected. The list of players kept by
  the page is left out.
\<close>

definition deletePlayer :: "fk_rule \<Rightarrow> fk_rule \<Rightarrow> string option \<Rightarrow> world \<Rightarrow> toast \<times> world" where
  "deletePlayer statistics_fk attendance_fk playerToDelete w =
     (case playerToDelete of
        None \<Rightarrow> (NoToast, w)
      | Some player_id \<Rightarrow>
          if player_id = [] then (NoToast, w)
          else report
            (andThen (ignore_response (delete_statistics_of_player player_id))
               (\<lambda>_. andThen (ignore_response (delete_attendance_of_player player_id))
                  (\<lambda>_. delete_player statistics_fk attendance_fk player_id)) w))"

subsection \<open>At most one record per (event, player, owner)\<close>

definition attendance_unique :: "store \<Rightarrow> bool" where
  "attendance_unique s \<longleftrightarrow> distinct (map attendance_key (attendance s))"

definition statistics_unique :: "store \<Rightarrow> bool" where
  "statistics_unique s \<longleftrightarrow> distinct (map statistics_key (statistics s))"


section \<open>Reading results\<close>

text \<open>The five counters of a record, in the order of the source.\<close>

definition raw_counts :: "('n, 'm) Counts_scheme \<Rightarrow> 'n list" where
  "raw_counts c = [points c, rebounds c, assists c, steals c, blocks c]"

text \<open>The sum of each counter over a collection of statistics rows, null read as zero.\<close>

definition totals :: "stat_row list \<Rightarrow> int list" where
  "totals rows =
     [\<Sum>r\<leftarrow>rows. or0 (points r), \<Sum>r\<leftarrow>rows. or0 (rebounds r), \<Sum>r\<leftarrow>rows. or0 (assists r),
      \<Sum>r\<leftarrow>rows. or0 (steals r), \<Sum>r\<leftarrow>rows. or0 (blocks r)]"

text \<open>
  The sum of the magnitudes of each counter. Where it stays within \<open>2 ^ 53\<close> every
  partial sum is an integer that binary64 holds exactly; where it is a safe total, so are
  the totals.
\<close>

definition abs_totals :: "stat_row list \<Rightarrow> int list" where
  "abs_totals rows =
     [\<Sum>r\<leftarrow>rows. \<bar>or0 (points r)\<bar>, \<Sum>r\<leftarrow>rows. \<bar>or0 (rebounds r)\<bar>,
      \<Sum>r\<leftarrow>rows. \<bar>or0 (assists r)\<bar>, \<Sum>r\<leftarrow>rows. \<bar>or0 (steals r)\<bar>,
      \<Sum>r\<leftarrow>rows. \<bar>or0 (blocks r)\<bar>]"

definition exact_rows :: "stat_row list \<Rightarrow> bool" where
  "exact_rows rows \<longleftrightarrow> list_all (\<lambda>s. s \<le> 2 ^ 53) (abs_totals rows)"

definition safe_rows :: "stat_row list \<Rightarrow> bool" where
  "safe_rows rows \<longleftrightarrow> list_all safe_total (abs_totals rows)"

text \<open>The player identifiers of the two collections are plain keys.\<close>

definition plain_keys :: "player_row list \<Rightarrow> stat_row list \<Rightarrow> bool" where
  "plain_keys players' stats \<longleftrightarrow>
     list_all (\<lambda>p. plain_key (pl_id p)) players' \<and> list_all (\<lambda>r. plain_key (st_player_id r)) stats"

text \<open>The statistics rows of one player, and those of any player of a collection.\<close>

definition player_rows :: "string \<Rightarrow> stat_row list \<Rightarrow> stat_row list" where
  "player_rows player_id stats = filter (\<lambda>r. st_player_id r = player_id) stats"

definition known_rows :: "player_row list \<Rightarrow> stat_row list \<Rightarrow> stat_row list" where
  "known_rows players' stats = filter (\<lambda>r. st_player_id r \<in> set (map pl_id players')) stats"

text \<open>The entry the averages view is expected to show for a player with rows: each total
  over the number of rows, rendered to one decimal.\<close>

definition expected_average :: "stat_row list \<Rightarrow> player_row \<Rightarrow> PlayerAverage" where
  "expected_average stats player =
     (let rows = player_rows (pl_id player) stats; n = int (length rows)
      in \<lparr>points = average1 (\<Sum>r\<leftarrow>rows. or0 (points r)) n,
          rebounds = average1 (\<Sum>r\<leftarrow>rows. or0 (rebounds r)) n,
          assists = average1 (\<Sum>r\<leftarrow>rows. or0 (assists r)) n,
          steals = average1 (\<Sum>r\<leftarrow>rows. or0 (steals r)) n,
          blocks = average1 (\<Sum>r\<leftarrow>rows. or0 (blocks r)) n,
          name = pl_name player, gamesPlayed = n\<rparr>)"

text \<open>The result of an event row agrees with its scores: win, loss or draw as the team
  score compares with the opponent score, and null when either score is unset.\<close>

definition result_consistent :: "event_row \<Rightarrow> bool" where
  "result_consistent r \<longleftrightarrow>
     (case (ev_team_score r, ev_opponent_score r) of
        (Some a, Some b) \<Rightarrow>
          (ev_result r = Some ''win'' \<longleftrightarrow> b < a)
          \<and> (ev_result r = Some ''loss'' \<longleftrightarrow> a < b)
          \<and> (ev_result r = Some ''draw'' \<longleftrightarrow> a = b)
      | _ \<Rightarrow> ev_result r = None)"

text \<open>No row of a table references the player.\<close>

definition unreferenced :: "string \<Rightarrow> store \<Rightarrow> bool" where
  "unreferenced player_id s \<longleftrightarrow>
     list_all (\<lambda>r. st_player_id r \<noteq> player_id) (statistics s)
     \<and> list_all (\<lambda>r. at_player_id r \<noteq> player_id) (attendance s)"

text \<open>An event row holds the scores of the submitted form, the result derived from them,
  and that result agrees with the scores.\<close>

definition written :: "GameFormValues \<Rightarrow> event_row \<Rightarrow> bool" where
  "written values r \<longleftrightarrow>
     ev_team_score r = v_team_score values
     \<and> ev_opponent_score r = v_opponent_score values
     \<and> ev_result r = deriveGameResult (form_score (v_team_score values))
                                      (form_score (v_opponent_score values))
     \<and> result_consistent r"

text \<open>The state of a statistics form when it is mounted.\<close>

definition initial_form :: StatsForm where
  "initial_form = \<lparr>form_players = [], playerStats = []\<rparr>"

text \<open>\<^verbatim>\<open>if (playerStat.id)\<close> holds: the entry carries a non-empty identifier.\<close>

definition has_id :: "PlayerStat \<Rightarrow> bool" where
  "has_id playerStat = (case ps_id playerStat of Some row_id \<Rightarrow> row_id \<noteq> [] | None \<Rightarrow> False)"

text \<open>The keys of the rows that a save of the form inserts, in the order of the entries.\<close>

definition inserted_keys :: "string \<Rightarrow> string \<Rightarrow> (string \<times> PlayerStat) list \<Rightarrow> (string \<times> string \<times> string) list" where
  "inserted_keys gameId user_id entries =
     map (\<lambda>entry. (gameId, fst entry, user_id)) (filter (\<lambda>entry. \<not> has_id (snd entry)) entries)"

text \<open>The players of a user, and what the Averages page loads for a user when its three
  requests succeed: the players by name, the statistics, the game events.\<close>

definition roster :: "string \<Rightarrow> store \<Rightarrow> player_row list" where
  "roster user_id s = filter (\<lambda>r. pl_user_id r = user_id) (players s)"






text \<open>The form after a series of changes typed into its inputs, each given by the player,
  the counter and the parsed value.\<close>

definition edited :: "(string \<times> stat_name \<times> int option) list \<Rightarrow> StatsForm \<Rightarrow> StatsForm" where
  "edited changes form =
     foldl (\<lambda>f change. handleStatChange (fst change) (fst (snd change)) (snd (snd change)) f)
       form changes"




text \<open>Rows for the examples.\<close>

definition a_stat :: "string \<Rightarrow> string \<Rightarrow> string \<Rightarrow> int \<Rightarrow> int \<Rightarrow> int \<Rightarrow> int \<Rightarrow> int \<Rightarrow> stat_row" where
  "a_stat row_id event_id player_id p r a s b =
     \<lparr>points = Some p, rebounds = Some r, assists = Some a, steals = Some s, blocks = Some b,
      st_id = row_id, st_event_id = event_id, st_player_id = player_id, st_user_id = ''u1''\<rparr>"

definition a_player :: "string \<Rightarrow> string \<Rightarrow> player_row" where
  "a_player player_id player_name = \<lparr>pl_id = player_id, pl_name = player_name, pl_user_id = ''u1''\<rparr>"

definition a_game :: "string \<Rightarrow> string \<Rightarrow> event_row" where
  "a_game event_id event_title =
     \<lparr>ev_id = event_id, ev_title = event_title, ev_date = ''2024-05-01T18:00:00.000Z'',
      ev_location = None, ev_opponent = None, ev_team_score = None, ev_opponent_score = None,
      ev_result = None, ev_type = ''game'', ev_user_id = ''u1''\<rparr>"

definition a_world :: "store \<Rightarrow> bool list \<Rightarrow> world" where
  "a_world s fs = \<lparr>db = s, faults = fs, uuid = (\<lambda>n. replicate (Suc n) CHR ''n''), issued = 0\<rparr>"

definition a_form :: "int option \<Rightarrow> int option \<Rightarrow> GameFormValues" where
  "a_form team opp =
     \<lparr>v_title = ''Finale'', v_date = ''2024-05-01T18:00:00.000Z'', v_location = None,
      v_opponent = Some ''Lyon'', v_team_score = team, v_opponent_score = opp\<rparr>"

definition a_presence :: "string \<Rightarrow> string \<Rightarrow> string \<Rightarrow> bool \<Rightarrow> attendance_row" where
  "a_presence row_id event_id player_id present =
     \<lparr>at_id = row_id, at_event_id = event_id, at_player_id = player_id, at_user_id = ''u1'',
      at_present = present\<rparr>"

definition a_store :: "stat_row list \<Rightarrow> store" where
  "a_store rows =
     \<lparr>players = [a_player ''p1'' ''A'', a_player ''p2'' ''B''],
      events = [a_game ''e1'' ''Finale''], attendance = [], statistics = rows\<rparr>"


section \<open>The one-decimal rendering of a quotient\<close>

lemma norm_shift_bound: "0 < s \<Longrightarrow> 2 ^ 52 * n \<le> s * 2 ^ norm_shift s n k"
proof (induction s n k rule: norm_shift.induct)
  case (1 s n k)
  show ?case
  proof (cases "2 ^ 52 * n \<le> s * 2 ^ k")
    case True
    then show ?thesis by simp
  next
    case False
    with "1.prems" have "\<not> (s \<le> 0 \<or> 2 ^ 52 * n \<le> s * 2 ^ k)" by simp
    from "1.IH" [OF this "1.prems"] False "1.prems" show ?thesis
      by (subst norm_shift.simps) simp
  qed
qed

lemma round_half_even_error:
  assumes "0 < n"
  shows "2 * \<bar>round_half_even a n * n - a\<bar> \<le> n"
proof -
  define q where "q = a div n"
  define r where "r = a mod n"
  have a: "a = q * n + r" by (simp add: q_def r_def)
  have r: "0 \<le> r" "r < n" using assms by (simp_all add: r_def)
  have "round_half_even a n = q \<and> 2 * r \<le> n \<or> round_half_even a n = q + 1 \<and> n \<le> 2 * r"
    by (auto simp: round_half_even_def Let_def q_def r_def)
  then show ?thesis
  proof
    assume h: "round_half_even a n = q \<and> 2 * r \<le> n"
    then have "round_half_even a n * n - a = - r" using a by simp
    with h r show ?thesis by simp
  next
    assume h: "round_half_even a n = q + 1 \<and> n \<le> 2 * r"
    then have "round_half_even a n * n - a = n - r" using a by (simp add: algebra_simps)
    with h r show ?thesis by simp
  qed
qed

lemma tenths_lower:
  fixes m n s P T c :: int
  assumes n: "0 < n" and err: "2 * \<bar>m * n - s * P\<bar> \<le> n" and P: "0 < P"
    and T: "T * (2 * n) + c \<le> 20 * s + n" and cP: "10 * n < c * P"
  shows "T * (2 * P) < 20 * m + P"
proof -
  define x where "x = m * n - s * P"
  from err have "2 * \<bar>x\<bar> \<le> n" by (simp add: x_def)
  then have "- n \<le> 2 * x" by linarith
  then have e1: "2 * (s * P) - n \<le> 2 * (m * n)" by (simp add: x_def)
  from T P have "P * (T * (2 * n) + c) \<le> P * (20 * s + n)"
    by (intro mult_left_mono) simp_all
  then have e2: "2 * (T * P * n) + c * P \<le> 20 * (s * P) + P * n"
    by (simp add: algebra_simps)
  have "T * (2 * P) * n = 2 * (T * P * n)" by (simp add: algebra_simps)
  also have "\<dots> < 20 * (m * n) + P * n" using e1 e2 cP by linarith
  also have "\<dots> = (20 * m + P) * n" by (simp add: algebra_simps)
  finally show ?thesis using n by simp
qed

lemma tenths_upper:
  fixes m n s P U c :: int
  assumes n: "0 < n" and err: "2 * \<bar>m * n - s * P\<bar> \<le> n" and P: "0 < P"
    and U: "20 * s + n + c \<le> U * (2 * n)" and cP: "10 * n < c * P"
  shows "20 * m + P < U * (2 * P)"
proof -
  define x where "x = m * n - s * P"
  from err have "2 * \<bar>x\<bar> \<le> n" by (simp add: x_def)
  then have "2 * x \<le> n" by linarith
  then have e1: "2 * (m * n) \<le> 2 * (s * P) + n" by (simp add: x_def)
  from U P have "P * (20 * s + n + c) \<le> P * (U * (2 * n))"
    by (intro mult_left_mono) simp_all
  then have e2: "20 * (s * P) + P * n + c * P \<le> 2 * (U * P * n)"
    by (simp add: algebra_simps)
  have "(20 * m + P) * n = 20 * (m * n) + P * n" by (simp add: algebra_simps)
  also have "\<dots> < 2 * (U * P * n)" using e1 e2 cP by linarith
  also have "\<dots> = U * (2 * P) * n" by (simp add: algebra_simps)
  finally show ?thesis using n by simp
qed

text \<open>The double quotient of positive integers: its error and the size of its unit.\<close>

lemma js_divide_pos:
  assumes s: "0 < s" and n: "0 < n" and small: "20 * s < 2 ^ 53"
  defines "x \<equiv> js_divide s n"
  shows "0 \<le> mant x" and "2 * \<bar>mant x * n - s * 2 ^ scale x\<bar> \<le> n" and "10 * n < 2 ^ scale x"
proof -
  define k where "k = norm_shift s n 0"
  have x: "x = \<lparr>mant = round_half_even (s * 2 ^ k) n, scale = k\<rparr>"
    using s by (simp add: x_def js_divide_def k_def Let_def)
  show "2 * \<bar>mant x * n - s * 2 ^ scale x\<bar> \<le> n"
    using round_half_even_error [OF n, of "s * 2 ^ k"] by (simp add: x)
  have "0 \<le> (s * 2 ^ k) div n"
    using s n by (simp add: pos_imp_zdiv_nonneg_iff)
  then show "0 \<le> mant x"
    by (simp add: x round_half_even_def Let_def)
  have "2 ^ 52 * n \<le> s * 2 ^ k"
    unfolding k_def using s by (rule norm_shift_bound)
  then have "20 * (2 ^ 52 * n) \<le> (20 * s) * 2 ^ k" by simp
  also have "\<dots> < 2 ^ 53 * 2 ^ k" using small by (intro mult_strict_right_mono) simp_all
  finally show "10 * n < 2 ^ scale x" by (simp add: x)
qed

lemma div_lowerI:
  fixes a b q :: int
  assumes "0 < b" "q * b \<le> a"
  shows "q \<le> a div b"
proof -
  have "q = (q * b) div b" using assms(1) by simp
  also have "\<dots> \<le> a div b" using assms by (intro zdiv_mono1)
  finally show ?thesis .
qed

lemma div_upperI:
  fixes a b q :: int
  assumes "0 < b" "a < q * b"
  shows "a div b < q"
proof (rule ccontr)
  assume "\<not> a div b < q"
  then have "q \<le> a div b" by simp
  then have "q * b \<le> (a div b) * b" using assms(1) by (intro mult_right_mono) simp_all
  also have "\<dots> \<le> a" using assms(1)
    by (metis mult.commute pos_mod_sign add_le_cancel_left add.right_neutral mult_div_mod_eq)
  finally show False using assms(2) by simp
qed

lemma average1_pos_lower:
  assumes s: "0 < s" and n: "0 < n" and small: "20 * s < 2 ^ 53"
    and lo: "L * (2 * n) < 20 * s + n"
  shows "L \<le> average1 s n"
proof -
  define x where "x = js_divide s n"
  define P :: int where "P = 2 ^ scale x"
  have f1: "0 \<le> mant x"
    using js_divide_pos(1) [OF s n small] by (simp add: x_def)
  have f2: "2 * \<bar>mant x * n - s * P\<bar> \<le> n"
    using js_divide_pos(2) [OF s n small] by (simp add: x_def P_def)
  have f3: "10 * n < 1 * P"
    using js_divide_pos(3) [OF s n small] by (simp add: x_def P_def)
  have P: "0 < P" by (simp add: P_def)
  from lo have lo': "L * (2 * n) + 1 \<le> 20 * s + n" by simp
  have "L * (2 * P) < 20 * mant x + P"
    using n f2 P lo' f3 by (rule tenths_lower)
  then have "L \<le> (20 * mant x + P) div (2 * P)"
    using P by (intro div_lowerI) simp_all
  then show ?thesis
    using f1 by (simp add: average1_def toFixed1_def Let_def x_def [symmetric] P_def)
qed

lemma average1_pos_upper:
  assumes s: "0 < s" and n: "0 < n" and small: "20 * s < 2 ^ 53"
    and hi: "20 * s + n < U * (2 * n)"
  shows "average1 s n < U"
proof -
  define x where "x = js_divide s n"
  define P :: int where "P = 2 ^ scale x"
  have f1: "0 \<le> mant x"
    using js_divide_pos(1) [OF s n small] by (simp add: x_def)
  have f2: "2 * \<bar>mant x * n - s * P\<bar> \<le> n"
    using js_divide_pos(2) [OF s n small] by (simp add: x_def P_def)
  have f3: "10 * n < 1 * P"
    using js_divide_pos(3) [OF s n small] by (simp add: x_def P_def)
  have P: "0 < P" by (simp add: P_def)
  from hi have hi': "20 * s + n + 1 \<le> U * (2 * n)" by simp
  have "20 * mant x + P < U * (2 * P)"
    using n f2 P hi' f3 by (rule tenths_upper)
  then have "(20 * mant x + P) div (2 * P) < U"
    using P by (intro div_upperI) simp_all
  then show ?thesis
    using f1 by (simp add: average1_def toFixed1_def Let_def x_def [symmetric] P_def)
qed

lemma toFixed1_minus:
  "toFixed1 \<lparr>mant = - m, scale = k\<rparr> = - toFixed1 \<lparr>mant = m, scale = k\<rparr>"
proof -
  have "((2::int) ^ k) div (2 * 2 ^ k) = 0"
    by (simp add: div_pos_pos_trivial)
  then show ?thesis
    by (cases "m = 0") (auto simp: toFixed1_def Let_def)
qed

lemma average1_minus: "average1 (- s) n = - average1 s n"
proof (cases "s = 0")
  case True
  then show ?thesis
    by (simp add: average1_def js_divide_def toFixed1_def div_pos_pos_trivial)
next
  case False
  then show ?thesis
    by (simp add: average1_def js_divide_def Let_def toFixed1_minus sgn_minus)
qed

lemma average1_zero: "average1 0 n = 0"
  by (simp add: average1_def js_divide_def toFixed1_def div_pos_pos_trivial)

text \<open>The rendering is a tenth nearest to the exact quotient.\<close>

lemma average1_pos_nearest:
  assumes s: "0 < s" and n: "0 < n" and small: "20 * s < 2 ^ 53"
  shows "2 * \<bar>10 * s - average1 s n * n\<bar> \<le> n"
proof -
  define T where "T = (20 * s + n) div (2 * n)"
  define r where "r = (20 * s + n) mod (2 * n)"
  have eq: "20 * s + n = T * (2 * n) + r"
    by (simp only: T_def r_def div_mult_mod_eq)
  have r: "0 \<le> r" "r < 2 * n"
    using n by (simp_all add: r_def)
  have "20 * s + n < (T + 1) * (2 * n)"
    using eq r by (simp add: algebra_simps)
  then have up: "average1 s n < T + 1"
    using s n small by (intro average1_pos_upper)
  show ?thesis
  proof (cases "r = 0")
    case True
    have "(T - 1) * (2 * n) < 20 * s + n"
      using eq True n by (simp add: algebra_simps)
    then have "T - 1 \<le> average1 s n"
      using s n small by (intro average1_pos_lower)
    with up have "average1 s n = T \<or> average1 s n = T - 1" by linarith
    then show ?thesis
    proof
      assume a: "average1 s n = T"
      have "2 * (10 * s - T * n) = - n" using eq True by (simp add: algebra_simps)
      then have "2 * \<bar>10 * s - T * n\<bar> \<le> n" using n by linarith
      then show ?thesis by (simp only: a)
    next
      assume a: "average1 s n = T - 1"
      have "2 * (10 * s - (T - 1) * n) = n" using eq True by (simp add: algebra_simps)
      then have "2 * \<bar>10 * s - (T - 1) * n\<bar> \<le> n" using n by linarith
      then show ?thesis by (simp only: a)
    qed
  next
    case False
    have "T * (2 * n) < 20 * s + n"
      using eq r False by simp
    then have "T \<le> average1 s n"
      using s n small by (intro average1_pos_lower)
    with up have t: "average1 s n = T" by simp
    have "2 * (10 * s - T * n) = r - n" using eq by (simp add: algebra_simps)
    then have "2 * \<bar>10 * s - T * n\<bar> \<le> n" using r by linarith
    then show ?thesis by (simp only: t)
  qed
qed

lemma average1_nearest:
  assumes n: "0 < n" and small: "20 * \<bar>s\<bar> < 2 ^ 53"
  shows "2 * \<bar>10 * s - average1 s n * n\<bar> \<le> n"
proof -
  consider "s = 0" | "0 < s" | "s < 0" by linarith
  then show ?thesis
  proof cases
    case 1
    then show ?thesis using n by (simp add: average1_zero)
  next
    case 2
    then show ?thesis using n small by (intro average1_pos_nearest) simp_all
  next
    case 3
    then have "2 * \<bar>10 * (- s) - average1 (- s) n * n\<bar> \<le> n"
      using n small by (intro average1_pos_nearest) simp_all
    moreover have "10 * (- s) - average1 (- s) n * n = - (10 * s - average1 s n * n)"
      by (simp add: average1_minus)
    ultimately show ?thesis by (simp only: abs_minus_cancel)
  qed
qed

text \<open>Away from the midpoints between two tenths it is the quotient rounded half up.\<close>

lemma average1_pos_half_up:
  assumes s: "0 < s" and n: "0 < n" and small: "20 * s < 2 ^ 53"
    and nontie: "\<not> 2 * n dvd 20 * s + n"
  shows "average1 s n = (20 * s + n) div (2 * n)"
proof -
  define T where "T = (20 * s + n) div (2 * n)"
  define r where "r = (20 * s + n) mod (2 * n)"
  have eq: "20 * s + n = T * (2 * n) + r"
    by (simp only: T_def r_def div_mult_mod_eq)
  have r0: "0 \<le> r" "r < 2 * n"
    using n by (simp_all add: r_def)
  have "r \<noteq> 0"
    using nontie by (simp add: r_def dvd_eq_mod_eq_0)
  with r0 have r: "0 < r" "r < 2 * n" by simp_all
  have "20 * s + n < (T + 1) * (2 * n)"
    using eq r by (simp add: algebra_simps)
  then have "average1 s n < T + 1"
    using s n small by (intro average1_pos_upper)
  moreover have "T * (2 * n) < 20 * s + n"
    using eq r by simp
  then have "T \<le> average1 s n"
    using s n small by (intro average1_pos_lower)
  ultimately show ?thesis by (simp add: T_def)
qed

lemma average1_half_up:
  assumes n: "0 < n" and small: "20 * \<bar>s\<bar> < 2 ^ 53"
    and nontie: "\<not> 2 * n dvd 20 * s + n"
  shows "average1 s n = (20 * s + n) div (2 * n)"
proof -
  consider "s = 0" | "0 < s" | "s < 0" by linarith
  then show ?thesis
  proof cases
    case 1
    then show ?thesis using n by (simp add: average1_zero div_pos_pos_trivial)
  next
    case 2
    then show ?thesis using n small nontie by (intro average1_pos_half_up) simp_all
  next
    case 3
    define T where "T = (20 * (- s) + n) div (2 * n)"
    define r where "r = (20 * (- s) + n) mod (2 * n)"
    have eq: "20 * (- s) + n = T * (2 * n) + r"
      by (simp only: T_def r_def div_mult_mod_eq)
    have r0: "0 \<le> r" "r < 2 * n"
      using n by (simp_all add: r_def)
    have "r \<noteq> 0"
    proof
      assume "r = 0"
      with eq have "20 * s + n = (1 - T) * (2 * n)" by (simp add: algebra_simps)
      then have "2 * n dvd 20 * s + n" by (metis dvd_triv_right)
      with nontie show False by simp
    qed
    with r0 have r: "0 < r" by simp
    have up: "20 * (- s) + n < (T + 1) * (2 * n)"
      using eq r0 by (simp add: algebra_simps)
    have lo: "T * (2 * n) < 20 * (- s) + n"
      using eq r by simp
    have "average1 (- s) n < T + 1"
      using 3 n small up by (intro average1_pos_upper) simp_all
    moreover have "T \<le> average1 (- s) n"
      using 3 n small lo by (intro average1_pos_lower) simp_all
    ultimately have t: "average1 s n = - T" by (simp add: average1_minus)
    have "20 * s + n = (- T) * (2 * n) + (2 * n - r)"
      using eq by (simp add: algebra_simps)
    moreover have "0 \<le> 2 * n - r" "2 * n - r < 2 * n" using r r0 by simp_all
    ultimately have "(20 * s + n) div (2 * n) = - T"
      using int_div_pos_eq [of "20 * s + n" "2 * n" "- T" "2 * n - r"]
      by (simp add: algebra_simps)
    with t show ?thesis by simp
  qed
qed


lemma round_half_up1_int:
  assumes "0 < n"
  shows "round_half_up1 s n = (20 * s + n) div (2 * n)"
proof -
  have "10 * (of_int s / of_int n :: rat) + 1 / 2 = of_int (20 * s + n) / of_int (2 * n)"
    using assms by (simp add: field_simps)
  then show ?thesis
    unfolding round_half_up1_def by (simp only: floor_divide_of_int_eq)
qed

lemma nearest_tenth_int:
  assumes "0 < n"
  shows "nearest_tenth t s n \<longleftrightarrow> 2 * \<bar>10 * s - t * n\<bar> \<le> n"
proof -
  have "of_int t / 10 - (of_int s / of_int n :: rat) = of_int (t * n - 10 * s) / of_int (10 * n)"
    using assms by (simp add: field_simps)
  then have "\<bar>of_int t / 10 - (of_int s / of_int n :: rat)\<bar> = of_int \<bar>t * n - 10 * s\<bar> / of_int (10 * n)"
    using assms by (simp add: abs_mult)
  also have "\<dots> \<le> 1 / 20 \<longleftrightarrow> (of_int (20 * \<bar>t * n - 10 * s\<bar>) :: rat) \<le> of_int (10 * n)"
    using assms by (simp add: field_simps)
  also have "\<dots> \<longleftrightarrow> 20 * \<bar>t * n - 10 * s\<bar> \<le> 10 * n"
    by (simp only: of_int_le_iff)
  also have "\<dots> \<longleftrightarrow> 2 * \<bar>10 * s - t * n\<bar> \<le> n"
    by (simp add: abs_minus_commute)
  finally show ?thesis by (simp add: nearest_tenth_def)
qed


subsection \<open>Sums and exact quotients\<close>

lemma round53_exact:
  assumes "\<bar>x\<bar> \<le> 2 ^ 53"
  shows "round53 x = x"
proof (cases "\<bar>x\<bar> < 2 ^ 53")
  case True
  then have "excess_bits \<bar>x\<bar> 0 = 0" by simp
  moreover have "round_half_even \<bar>x\<bar> 1 = \<bar>x\<bar>" by (simp add: round_half_even_def)
  ultimately show ?thesis by (simp add: round53_def mult_sgn_abs)
next
  case False
  with assms have x: "\<bar>x\<bar> = 2 ^ 53" by simp
  have "excess_bits (2 ^ 53) 0 = 1"
    by (subst excess_bits.simps) simp
  moreover have "round_half_even (2 ^ 53) 2 = 2 ^ 52"
    by (simp add: round_half_even_def)
  ultimately have "round53 x = sgn x * 2 ^ 53"
    by (simp add: round53_def x)
  also have "\<dots> = sgn x * \<bar>x\<bar>" by (simp only: x)
  finally show ?thesis by (simp add: mult_sgn_abs)
qed

lemma js_add_exact: "\<bar>a\<bar> + \<bar>b\<bar> \<le> 2 ^ 53 \<Longrightarrow> js_add a b = a + b"
  unfolding js_add_def by (rule round53_exact) linarith

lemma js_divide_minus:
  "mant (js_divide (- s) n) = - mant (js_divide s n)" "scale (js_divide (- s) n) = scale (js_divide s n)"
  by (simp_all add: js_divide_def Let_def sgn_minus)

lemma quotient_short_minus: "quotient_short (- s) n = quotient_short s n"
  by (simp add: quotient_short_def js_divide_minus)

lemma midpoint1_minus: "midpoint1 (- s) n = midpoint1 s n"
proof -
  have "20 * (- s) + n = - (20 * s + n) + 2 * n" by simp
  then show ?thesis
    unfolding midpoint1_def
    by (metis dvd_add_triv_right_iff dvd_minus_iff)
qed

lemma half_away1_int:
  assumes "0 < n"
  shows "half_away1 s n = sgn s * ((20 * \<bar>s\<bar> + n) div (2 * n))"
  using round_half_up1_int [OF assms, of "\<bar>s\<bar>"] by (simp add: half_away1_def round_half_up1_def)

lemma half_away1_minus: "half_away1 (- s) n = - half_away1 s n"
  by (simp add: half_away1_def sgn_minus)

text \<open>A quotient that is a multiple of a quarter is a binary64 number: the division is exact.\<close>

lemma js_divide_exact:
  assumes s: "0 < s" and n: "0 < n" and small: "20 * s < 2 ^ 53" and quarter: "n dvd 4 * s"
  shows "mant (js_divide s n) * n = s * 2 ^ scale (js_divide s n)"
proof -
  define k where "k = norm_shift s n 0"
  have x: "js_divide s n = \<lparr>mant = round_half_even (s * 2 ^ k) n, scale = k\<rparr>"
    using s by (simp add: js_divide_def k_def Let_def)
  have bound: "2 ^ 52 * n \<le> s * 2 ^ k"
    unfolding k_def using s by (rule norm_shift_bound)
  have "2 \<le> k"
  proof (rule ccontr)
    assume "\<not> 2 \<le> k"
    then have "k = 0 \<or> k = 1" by arith
    then have "s * 2 ^ k \<le> 2 * s" using s by auto
    moreover have "(2::int) ^ 52 * 1 \<le> 2 ^ 52 * n" using n by (intro mult_left_mono) simp_all
    ultimately show False using bound small by simp
  qed
  then obtain j where k: "k = Suc (Suc j)"
    by (metis Suc_le_D Suc_le_mono numeral_2_eq_2)
  have "s * 2 ^ k = (4 * s) * 2 ^ j" by (simp add: k)
  then have "n dvd s * 2 ^ k" using quarter by (simp only: dvd_mult2)
  then have "(s * 2 ^ k) mod n = 0" by (simp add: dvd_eq_mod_eq_0)
  then have "round_half_even (s * 2 ^ k) n = (s * 2 ^ k) div n" using n
    by (simp add: round_half_even_def Let_def)
  with \<open>n dvd s * 2 ^ k\<close> show ?thesis by (simp add: x)
qed

lemma exact_not_short:
  assumes n: "0 < n" and small: "20 * \<bar>s\<bar> < 2 ^ 53" and quarter: "n dvd 4 * s"
  shows "\<not> quotient_short s n"
proof -
  have pos: "\<not> quotient_short t n" if "0 < t" "20 * t < 2 ^ 53" "n dvd 4 * t" for t
  proof -
    from js_divide_exact [OF that(1) n that(2) that(3)] js_divide_pos(1) [OF that(1) n that(2)] that(1)
    show ?thesis by (simp add: quotient_short_def)
  qed
  consider "s = 0" | "0 < s" | "s < 0" by linarith
  then show ?thesis
  proof cases
    case 1
    then show ?thesis by (simp add: quotient_short_def js_divide_def)
  next
    case 2
    with small quarter show ?thesis by (intro pos) simp_all
  next
    case 3
    with small quarter have "\<not> quotient_short (- s) n" by (intro pos) simp_all
    then show ?thesis by (simp add: quotient_short_minus)
  qed
qed

lemma average1_pos_midpoint:
  assumes s: "0 < s" and n: "0 < n" and small: "20 * s < 2 ^ 53"
    and tie: "2 * n dvd 20 * s + n"
  shows "average1 s n = (20 * s + n) div (2 * n) - (if quotient_short s n then 1 else 0)"
proof -
  define x where "x = js_divide s n"
  define P :: int where "P = 2 ^ scale x"
  define m where "m = mant x"
  define T where "T = (20 * s + n) div (2 * n)"
  have eq: "20 * s + n = T * (2 * n)"
    using tie by (simp add: T_def)
  have m: "0 \<le> m"
    using js_divide_pos(1) [OF s n small] by (simp add: x_def m_def)
  have P: "0 < P" by (simp add: P_def)
  have val: "average1 s n = (20 * m + P) div (2 * P)"
    using m by (simp add: average1_def toFixed1_def Let_def x_def [symmetric] P_def m_def)
  have short: "quotient_short s n \<longleftrightarrow> m * n < s * P"
    using s m by (simp add: quotient_short_def x_def [symmetric] m_def P_def)
  have "20 * s + n < (T + 1) * (2 * n)"
    using eq n by (simp add: algebra_simps)
  then have up: "average1 s n < T + 1"
    using s n small by (intro average1_pos_upper)
  have "(T - 1) * (2 * n) < 20 * s + n"
    using eq n by (simp add: algebra_simps)
  then have lo: "T - 1 \<le> average1 s n"
    using s n small by (intro average1_pos_lower)
  have scaled: "T * (2 * P) * n = 20 * (s * P) + P * n"
  proof -
    have "T * (2 * P) * n = P * (T * (2 * n))" by (simp add: algebra_simps)
    also have "\<dots> = P * (20 * s + n)" by (simp only: eq)
    finally show ?thesis by (simp add: algebra_simps)
  qed
  show ?thesis
  proof (cases "m * n < s * P")
    case True
    have "(20 * m + P) * n = 20 * (m * n) + P * n" by (simp add: algebra_simps)
    also have "\<dots> < 20 * (s * P) + P * n" using True by simp
    also have "\<dots> = T * (2 * P) * n" by (simp only: scaled)
    finally have "20 * m + P < T * (2 * P)" using n by simp
    then have "(20 * m + P) div (2 * P) < T"
      using P by (intro div_upperI) simp_all
    with lo val have "average1 s n = T - 1" by simp
    with True short show ?thesis by (simp add: T_def)
  next
    case False
    have "T * (2 * P) * n = 20 * (s * P) + P * n" by (rule scaled)
    also have "\<dots> \<le> 20 * (m * n) + P * n" using False by simp
    also have "\<dots> = (20 * m + P) * n" by (simp add: algebra_simps)
    finally have "T * (2 * P) \<le> 20 * m + P" using n by simp
    then have "T \<le> (20 * m + P) div (2 * P)"
      using P by (intro div_lowerI) simp_all
    with up val have "average1 s n = T" by simp
    with False short show ?thesis by (simp add: T_def)
  qed
qed

text \<open>The rendering is the quotient rounded to one decimal with ties away from zero, save
  at a tie whose binary64 quotient falls short of the exact one.\<close>

lemma average1_half_away:
  assumes n: "0 < n" and small: "20 * \<bar>s\<bar> < 2 ^ 53"
  shows "average1 s n = half_away1 s n - (if midpoint1 s n \<and> quotient_short s n then sgn s else 0)"
proof -
  have pos: "average1 t n = half_away1 t n - (if midpoint1 t n \<and> quotient_short t n then sgn t else 0)"
    if t: "0 < t" "20 * t < 2 ^ 53" for t
  proof (cases "midpoint1 t n")
    case True
    then have "2 * n dvd 20 * t + n" by (simp add: midpoint1_def)
    from average1_pos_midpoint [OF t(1) n t(2) this] True t(1) show ?thesis
      by (simp add: half_away1_int [OF n])
  next
    case False
    then have "\<not> 2 * n dvd 20 * t + n" by (simp add: midpoint1_def)
    from average1_pos_half_up [OF t(1) n t(2) this] False t(1) show ?thesis
      by (simp add: half_away1_int [OF n])
  qed
  consider "s = 0" | "0 < s" | "s < 0" by linarith
  then show ?thesis
  proof cases
    case 1
    then show ?thesis by (simp add: average1_zero half_away1_def)
  next
    case 2
    with small show ?thesis by (intro pos) simp_all
  next
    case 3
    with small have "average1 (- s) n
        = half_away1 (- s) n - (if midpoint1 (- s) n \<and> quotient_short (- s) n then sgn (- s) else 0)"
      by (intro pos) simp_all
    then have neg: "- average1 s n
        = - half_away1 s n - (if midpoint1 s n \<and> quotient_short s n then - sgn s else 0)"
      by (simp add: average1_minus half_away1_minus midpoint1_minus quotient_short_minus sgn_minus)
    show ?thesis
    proof (cases "midpoint1 s n \<and> quotient_short s n")
      case True
      with neg show ?thesis by simp
    next
      case False
      with neg show ?thesis by auto
    qed
  qed
qed

lemma half_away1_nonneg:
  assumes "0 < n" "0 \<le> s"
  shows "half_away1 s n = round_half_up1 s n"
proof (cases "s = 0")
  case True
  with assms(1) show ?thesis
    by (simp add: half_away1_def round_half_up1_int div_pos_pos_trivial)
next
  case False
  with assms show ?thesis
    by (simp add: half_away1_int round_half_up1_int)
qed


text \<open>
  C5. Every average is \<open>average1\<close> of an integer total and a positive count. For a safe
  total it is a one-decimal value nearest to the exact quotient. It is the quotient
  rounded to one decimal with ties away from zero, except at a tie where the binary64
  quotient falls short of the exact one: there it is the tenth toward zero. Hence it is the
  quotient rounded half up whenever the quotient is not halfway between two tenths, and
  also at a tie when the total is not negative and the quotient is a multiple of a quarter,
  which binary64 holds exactly. A total of 1 over 3 games gives 0.3, and 1 over 4 gives 0.3.
\<close>

theorem average1_one_decimal:
  assumes "0 < n" and "safe_total s"
  shows "nearest_tenth (average1 s n) s n
    \<and> average1 s n = half_away1 s n - (if midpoint1 s n \<and> quotient_short s n then sgn s else 0)
    \<and> (\<not> midpoint1 s n \<longrightarrow> average1 s n = round_half_up1 s n)
    \<and> (0 \<le> s \<and> n dvd 4 * s \<longrightarrow> average1 s n = round_half_up1 s n)
    \<and> average1 1 3 = 3 \<and> average1 1 4 = 3"
proof -
  from assms have small: "20 * \<bar>s\<bar> < 2 ^ 53"
    by (simp add: safe_total_def)
  have "2 * \<bar>10 * s - average1 s n * n\<bar> \<le> n"
    using assms(1) small by (rule average1_nearest)
  then have near: "nearest_tenth (average1 s n) s n"
    using assms(1) by (simp add: nearest_tenth_int)
  note away = average1_half_away [OF assms(1) small]
  have up: "average1 s n = round_half_up1 s n" if "\<not> midpoint1 s n"
    using that assms(1) small by (simp add: midpoint1_def average1_half_up round_half_up1_int)
  have quarter: "average1 s n = round_half_up1 s n" if "0 \<le> s" "n dvd 4 * s"
    using away exact_not_short [OF assms(1) small that(2)] half_away1_nonneg [OF assms(1) that(1)]
    by simp
  have third: "average1 1 3 = 3" "average1 1 4 = 3"
    by code_simp+
  from near away up quarter third show ?thesis by blast
qed

theorem average1_one_decimal_witness:
  "nearest_tenth (average1 1 3) 1 3 \<and> average1 1 3 = round_half_up1 1 3
   \<and> midpoint1 1 4 \<and> \<not> quotient_short 1 4 \<and> average1 1 4 = round_half_up1 1 4
   \<and> midpoint1 3 20 \<and> quotient_short 3 20 \<and> half_away1 3 20 = 2 \<and> average1 3 20 = 1"
proof -
  have h: "0 < (3::int)" "0 < (4::int)" "0 < (20::int)" "safe_total 1" "safe_total 3"
    "\<not> midpoint1 1 3" "midpoint1 1 4" "midpoint1 3 20" "(4::int) dvd 4 * 1"
    by (simp_all add: safe_total_def midpoint1_def)
  have e: "half_away1 3 20 = 2" "half_away1 1 4 = 3" "round_half_up1 1 4 = 3"
    by (simp_all add: half_away1_def round_half_up1_def)
  have q: "quotient_short 3 20" "\<not> quotient_short 1 4"
    by code_simp+
  from average1_one_decimal [OF h(1) h(4)] average1_one_decimal [OF h(2) h(4)]
    average1_one_decimal [OF h(3) h(5)] h e q
  show ?thesis by simp
qed

text \<open>
  C5 as stated fails at a halfway quotient: 3 / 20 is the double just below 0.15, which
  renders as 0.1, while 0.15 rounded half up is 0.2.
\<close>

theorem average1_half_up_counterexample:
  "safe_total 3 \<and> average1 3 20 = 1 \<and> round_half_up1 3 20 = 2"
proof -
  have "average1 3 20 = 1"
    by code_simp
  moreover have "round_half_up1 3 20 = 2"
    by (simp add: round_half_up1_def)
  moreover have "safe_total 3"
    by (simp add: safe_total_def)
  ultimately show ?thesis by simp
qed


section \<open>The result of a game\<close>

text \<open>
  C3. For every pair of scores that the form can submit, the derivation returns null
  exactly when a score is absent, and otherwise win, loss or draw as the team score is
  greater than, less than or equal to the opponent score. In particular (10, 7) gives win,
  (7, 10) loss, (5, 5) draw, and 10 against an absent score gives null.
\<close>

theorem deriveGameResult_defined:
  "deriveGameResult (form_score a) (form_score b)
     = (case (a, b) of
          (Some x, Some y) \<Rightarrow> Some (if y < x then ''win'' else if x < y then ''loss'' else ''draw'')
        | _ \<Rightarrow> None)
   \<and> (deriveGameResult (form_score a) (form_score b) = None \<longleftrightarrow> a = None \<or> b = None)
   \<and> deriveGameResult (form_score (Some 10)) (form_score (Some 7)) = Some ''win''
   \<and> deriveGameResult (form_score (Some 7)) (form_score (Some 10)) = Some ''loss''
   \<and> deriveGameResult (form_score (Some 5)) (form_score (Some 5)) = Some ''draw''
   \<and> deriveGameResult (form_score (Some 10)) (form_score None) = None"
  by (cases a; cases b) (simp_all add: deriveGameResult_def js_less_def)



section \<open>The series of a player\<close>

text \<open>
  C6. \<^verbatim>\<open>getPlayerStats\<close> returns one record per statistics row of the player, in the
  order of the statistics collection, each with the five counts of its row (null read as
  zero); where no event has the row's event identifier the title is \<open>Match inconnu\<close>
  and the date is empty.
\<close>

theorem getPlayerStats_projection:
  "let rows = filter (\<lambda>stat. st_player_id stat = playerId) statistics';
       out = getPlayerStats toLocaleDateString statistics' events' playerId
   in length out = length rows
      \<and> map raw_counts out = map (\<lambda>stat. map or0 (raw_counts stat)) rows
      \<and> (\<forall>i < length rows.
            ((\<forall>e \<in> set events'. ev_id e \<noteq> st_event_id (rows ! i))
               \<longrightarrow> event (out ! i) = ''Match inconnu'' \<and> date (out ! i) = [])
            \<and> (\<forall>e. find (\<lambda>e. ev_id e = st_event_id (rows ! i)) events' = Some e
                      \<and> ev_title e \<noteq> [] \<and> ev_date e \<noteq> []
               \<longrightarrow> event (out ! i) = ev_title e \<and> date (out ! i) = toLocaleDateString (ev_date e)))"
proof -
  have none: "find P xs = None" if "\<forall>e \<in> set xs. \<not> P e" for P :: "event_row \<Rightarrow> bool" and xs
    using that by (simp add: find_None_iff)
  show ?thesis
    unfolding Let_def getPlayerStats_def
    by (auto simp: raw_counts_def comp_def none)
qed

theorem getPlayerStats_projection_witness:
  "let out = getPlayerStats (\<lambda>d. take 10 d)
               [a_stat ''s1'' ''e1'' ''p1'' 10 5 2 1 0, a_stat ''s2'' ''e1'' ''p2'' 4 4 4 4 4,
                a_stat ''s3'' ''e9'' ''p1'' 20 3 4 0 1]
               [a_game ''e1'' ''Finale'']
               ''p1''
   in length out = 2
      \<and> map raw_counts out = [[10, 5, 2, 1, 0], [20, 3, 4, 0, 1]]
      \<and> event (out ! 0) = ''Finale'' \<and> date (out ! 0) = ''2024-05-01''
      \<and> event (out ! 1) = ''Match inconnu'' \<and> date (out ! 1) = []"
  using getPlayerStats_projection [of "''p1''"
      "[a_stat ''s1'' ''e1'' ''p1'' 10 5 2 1 0, a_stat ''s2'' ''e1'' ''p2'' 4 4 4 4 4,
        a_stat ''s3'' ''e9'' ''p1'' 20 3 4 0 1]"
      "\<lambda>d. take 10 d" "[a_game ''e1'' ''Finale'']"]
  by (simp add: Let_def a_stat_def a_game_def getPlayerStats_def raw_counts_def)



section \<open>The averages\<close>

subsection \<open>The accumulators\<close>

lemma update_absent: "k \<notin> fst ` set al \<Longrightarrow> AList.update k v al = al @ [(k, v)]"
  by (induction al) auto

lemma init_players_distinct:
  "distinct (map pl_id P) \<Longrightarrow> fst ` set acc \<inter> pl_id ` set P = {} \<Longrightarrow>
   foldl init_player acc P = acc @ map (\<lambda>p. (pl_id p, zero_average p)) P"
proof (induction P arbitrary: acc)
  case Nil
  then show ?case by simp
next
  case (Cons p P)
  from Cons.prems have absent: "pl_id p \<notin> fst ` set acc" by auto
  then have step: "init_player acc p = acc @ [(pl_id p, zero_average p)]"
    by (simp add: init_player_def update_absent)
  have "fst ` set (acc @ [(pl_id p, zero_average p)]) \<inter> pl_id ` set P = {}"
    using Cons.prems by auto
  with Cons.IH [of "acc @ [(pl_id p, zero_average p)]"] Cons.prems step show ?case
    by simp
qed

lemma keys_init_players:
  "fst ` set (foldl init_player acc P) = fst ` set acc \<union> pl_id ` set P"
  by (induction P arbitrary: acc) (auto simp: init_player_def dom_update)

lemma keys_add_stat: "map fst (fst (add_stat (ps, tt) r)) = map fst ps"
proof (cases "map_of ps (st_player_id r)")
  case None
  then show ?thesis by (simp add: add_stat_def)
next
  case (Some a)
  then have "(st_player_id r, a) \<in> set ps" by (rule map_of_SomeD)
  then have "st_player_id r \<in> set (map fst ps)" by force
  with Some show ?thesis by (simp add: add_stat_def update_keys)
qed

lemma team_fold:
  "snd (foldl add_stat (ps, tt) S) =
     foldl add_to_team tt (filter (\<lambda>r. st_player_id r \<in> fst ` set ps) S)"
proof (induction S arbitrary: ps tt)
  case Nil
  then show ?case by simp
next
  case (Cons r S)
  obtain ps' tt' where step: "add_stat (ps, tt) r = (ps', tt')"
    by (cases "add_stat (ps, tt) r")
  have keys: "fst ` set ps' = fst ` set ps"
    using keys_add_stat [of ps tt r] step by (metis fst_conv set_map)
  have tt': "tt' = (if st_player_id r \<in> fst ` set ps then add_to_team tt r else tt)"
  proof (cases "map_of ps (st_player_id r)")
    case None
    then have "st_player_id r \<notin> fst ` set ps" by (simp add: map_of_eq_None_iff)
    with None step show ?thesis by (simp add: add_stat_def)
  next
    case (Some a)
    then have "(st_player_id r, a) \<in> set ps" by (rule map_of_SomeD)
    then have "st_player_id r \<in> fst ` set ps" by force
    with Some step show ?thesis by (simp add: add_stat_def)
  qed
  show ?case
    using Cons.IH [of ps' tt'] by (simp add: step keys tt')
qed

text \<open>A running sum is the exact sum as long as the magnitudes add up to at most
  \<open>2 ^ 53\<close>.\<close>

lemma js_sum_exact:
  "\<bar>a\<bar> + (\<Sum>x\<leftarrow>xs. \<bar>x\<bar>) \<le> 2 ^ 53 \<Longrightarrow> foldl js_add a xs = a + sum_list xs"
proof (induction xs arbitrary: a)
  case Nil
  then show ?case by simp
next
  case (Cons x xs)
  have nn: "0 \<le> (\<Sum>x\<leftarrow>xs. \<bar>x\<bar>)"
    by (rule sum_list_nonneg) auto
  from Cons.prems nn have "\<bar>a\<bar> + \<bar>x\<bar> \<le> 2 ^ 53" by simp
  then have step: "js_add a x = a + x" by (rule js_add_exact)
  have "\<bar>a + x\<bar> + (\<Sum>x\<leftarrow>xs. \<bar>x\<bar>) \<le> 2 ^ 53"
    using Cons.prems by simp
  from Cons.IH [OF this] step show ?case by (simp add: add.assoc)
qed

lemma js_sum_rows:
  fixes f :: "stat_row \<Rightarrow> int"
  assumes "(\<Sum>r\<leftarrow>rows. \<bar>f r\<bar>) \<le> 2 ^ 53"
  shows "foldl js_add 0 (map f rows) = (\<Sum>r\<leftarrow>rows. f r)"
  using assms js_sum_exact [of 0 "map f rows"] by (simp add: comp_def)

lemma abs_sum_filter:
  fixes f :: "'a \<Rightarrow> int"
  shows "(\<Sum>r\<leftarrow>filter P rows. \<bar>f r\<bar>) \<le> (\<Sum>r\<leftarrow>rows. \<bar>f r\<bar>)"
  by (induction rows) auto

lemma abs_totals_filter:
  "list_all2 (\<le>) (abs_totals (filter P rows)) (abs_totals rows)"
  by (simp add: abs_totals_def abs_sum_filter)

lemma exact_rows_filter: "exact_rows rows \<Longrightarrow> exact_rows (filter P rows)"
  using abs_totals_filter [of P rows]
  by (simp add: exact_rows_def abs_totals_def)

lemma safe_rows_filter: "safe_rows rows \<Longrightarrow> safe_rows (filter P rows)"
proof -
  have nn: "0 \<le> (\<Sum>r\<leftarrow>xs. \<bar>f r\<bar>)" for f :: "stat_row \<Rightarrow> int" and xs
    by (rule sum_list_nonneg) auto
  assume "safe_rows rows"
  then show ?thesis
    using abs_totals_filter [of P rows] nn
    by (simp add: safe_rows_def safe_total_def abs_totals_def)
qed

lemma safe_rows_exact: "safe_rows rows \<Longrightarrow> exact_rows rows"
  unfolding safe_rows_def exact_rows_def list_all_iff by (auto simp: safe_total_def)

lemma safe_rows_totals: "safe_rows rows \<Longrightarrow> list_all safe_total (totals rows)"
proof -
  have le: "\<bar>\<Sum>r\<leftarrow>xs. f r\<bar> \<le> (\<Sum>r\<leftarrow>xs. \<bar>f r\<bar>)" for f :: "stat_row \<Rightarrow> int" and xs
    using sum_list_abs [of "map f xs"] by (simp add: comp_def)
  have nn: "0 \<le> (\<Sum>r\<leftarrow>xs. \<bar>f r\<bar>)" for f :: "stat_row \<Rightarrow> int" and xs
    by (rule sum_list_nonneg) auto
  have one: "safe_total (\<Sum>r\<leftarrow>xs. f r)" if "safe_total (\<Sum>r\<leftarrow>xs. \<bar>f r\<bar>)"
    for f :: "stat_row \<Rightarrow> int" and xs
    using that le [of f xs] nn [of f xs] unfolding safe_total_def by linarith
  assume "safe_rows rows"
  then show ?thesis
    by (simp add: safe_rows_def abs_totals_def totals_def one)
qed

lemma team_sums:
  "raw_counts (foldl add_to_team tt K)
     = [foldl js_add (points tt) (map (\<lambda>r. or0 (points r)) K),
        foldl js_add (rebounds tt) (map (\<lambda>r. or0 (rebounds r)) K),
        foldl js_add (assists tt) (map (\<lambda>r. or0 (assists r)) K),
        foldl js_add (steals tt) (map (\<lambda>r. or0 (steals r)) K),
        foldl js_add (blocks tt) (map (\<lambda>r. or0 (blocks r)) K)]
   \<and> gamesCount (foldl add_to_team tt K) = gamesCount tt + int (length K)"
  by (induction K arbitrary: tt) (simp_all add: raw_counts_def add_to_team_def)

lemma player_sums:
  "raw_counts (foldl add_to_player a R)
     = [foldl js_add (points a) (map (\<lambda>r. or0 (points r)) R),
        foldl js_add (rebounds a) (map (\<lambda>r. or0 (rebounds r)) R),
        foldl js_add (assists a) (map (\<lambda>r. or0 (assists r)) R),
        foldl js_add (steals a) (map (\<lambda>r. or0 (steals r)) R),
        foldl js_add (blocks a) (map (\<lambda>r. or0 (blocks r)) R)]
   \<and> gamesPlayed (foldl add_to_player a R) = gamesPlayed a + int (length R)
   \<and> name (foldl add_to_player a R) = name a
   \<and> PlayerAverage.more (foldl add_to_player a R) = PlayerAverage.more a"
  by (induction R arbitrary: a) (simp_all add: raw_counts_def add_to_player_def)

lemma team_fields:
  assumes "exact_rows K"
  shows "raw_counts (foldl add_to_team
           \<lparr>points = 0, rebounds = 0, assists = 0, steals = 0, blocks = 0, gamesCount = 0\<rparr> K)
         = totals K"
  using assms
  by (simp add: team_sums exact_rows_def abs_totals_def totals_def js_sum_rows)

lemma player_fields:
  assumes "exact_rows R"
  shows "raw_counts (foldl add_to_player (zero_average p) R) = totals R"
  using assms
  by (simp add: player_sums exact_rows_def abs_totals_def totals_def js_sum_rows zero_average_def)

lemma update_present:
  assumes "distinct (map pl_id P)" "p0 \<in> set P"
  shows "AList.update (pl_id p0) v (map (\<lambda>p. (pl_id p, f p)) P)
         = map (\<lambda>p. (pl_id p, if pl_id p = pl_id p0 then v else f p)) P"
  using assms
proof (induction P)
  case Nil
  then show ?case by simp
next
  case (Cons p P)
  show ?case
  proof (cases "pl_id p = pl_id p0")
    case True
    from Cons.prems(1) have "pl_id p \<notin> pl_id ` set P" by simp
    with True have "\<forall>q \<in> set P. pl_id q \<noteq> pl_id p0"
      by (metis imageI)
    then have "map (\<lambda>p. (pl_id p, if pl_id p = pl_id p0 then v else f p)) P
               = map (\<lambda>p. (pl_id p, f p)) P"
      by (intro map_cong) auto
    with True show ?thesis by simp
  next
    case False
    then have "p0 \<in> set P" using Cons.prems(2) by auto
    with Cons.IH Cons.prems(1) False show ?thesis by simp
  qed
qed

lemma map_of_players_none:
  "k \<notin> pl_id ` set P \<Longrightarrow> map_of (map (\<lambda>p. (pl_id p, f p)) P) k = None"
  by (induction P) auto

lemma map_of_players_mem:
  "distinct (map pl_id P) \<Longrightarrow> p0 \<in> set P \<Longrightarrow> pl_id p0 = k \<Longrightarrow>
   map_of (map (\<lambda>p. (pl_id p, f p)) P) k = Some (f p0)"
proof (induction P)
  case Nil
  then show ?case by simp
next
  case (Cons p P)
  show ?case
  proof (cases "p = p0")
    case True
    with Cons.prems show ?thesis by simp
  next
    case False
    with Cons.prems have mem: "p0 \<in> set P" by simp
    then have "pl_id p0 \<in> set (map pl_id P)" by simp
    with Cons.prems have "pl_id p \<noteq> k" by auto
    with Cons.IH Cons.prems mem show ?thesis by simp
  qed
qed

lemma players_fold:
  assumes "distinct (map pl_id P)"
  shows "fst (foldl add_stat (map (\<lambda>p. (pl_id p, f p)) P, tt) S)
         = map (\<lambda>p. (pl_id p, foldl add_to_player (f p) (player_rows (pl_id p) S))) P"
proof (induction S arbitrary: f tt)
  case Nil
  then show ?case by (simp add: player_rows_def)
next
  case (Cons r S)
  define f' where "f' p = (if pl_id p = st_player_id r then add_to_player (f p) r else f p)" for p
  have step: "fst (add_stat (map (\<lambda>p. (pl_id p, f p)) P, tt) r) = map (\<lambda>p. (pl_id p, f' p)) P"
  proof (cases "st_player_id r \<in> pl_id ` set P")
    case False
    then have "map_of (map (\<lambda>p. (pl_id p, f p)) P) (st_player_id r) = None"
      by (rule map_of_players_none)
    moreover have "f' p = f p" if "p \<in> set P" for p
    proof -
      from that False have "pl_id p \<noteq> st_player_id r" by force
      then show ?thesis by (simp add: f'_def)
    qed
    then have "map (\<lambda>p. (pl_id p, f' p)) P = map (\<lambda>p. (pl_id p, f p)) P"
      by simp
    ultimately show ?thesis by (simp add: add_stat_def)
  next
    case True
    then obtain p0 where p0: "p0 \<in> set P" "pl_id p0 = st_player_id r" by auto
    have "inj_on pl_id (set P)"
      using assms by (simp add: distinct_map)
    then have unique: "q = p0" if "q \<in> set P" "pl_id q = pl_id p0" for q
      using that p0(1) by (simp add: inj_on_def)
    have look: "map_of (map (\<lambda>p. (pl_id p, f p)) P) (st_player_id r) = Some (f p0)"
      using assms p0 by (simp add: map_of_players_mem)
    have "AList.update (pl_id p0) (add_to_player (f p0) r) (map (\<lambda>p. (pl_id p, f p)) P)
          = map (\<lambda>p. (pl_id p, if pl_id p = pl_id p0 then add_to_player (f p0) r else f p)) P"
      using assms p0(1) by (rule update_present)
    also have "\<dots> = map (\<lambda>p. (pl_id p, f' p)) P"
    proof (rule map_cong [OF refl])
      fix q assume "q \<in> set P"
      show "(pl_id q, if pl_id q = pl_id p0 then add_to_player (f p0) r else f q) = (pl_id q, f' q)"
      proof (cases "pl_id q = pl_id p0")
        case True
        with \<open>q \<in> set P\<close> have "q = p0" by (rule unique)
        then show ?thesis by (simp add: f'_def p0(2))
      next
        case False
        then show ?thesis by (simp add: f'_def p0(2) [symmetric])
      qed
    qed
    finally show ?thesis
      using look p0(2) by (simp add: add_stat_def)
  qed
  define tt' where "tt' = snd (add_stat (map (\<lambda>p. (pl_id p, f p)) P, tt) r)"
  have "add_stat (map (\<lambda>p. (pl_id p, f p)) P, tt) r = (map (\<lambda>p. (pl_id p, f' p)) P, tt')"
    using step by (simp add: tt'_def prod_eq_iff)
  then have "fst (foldl add_stat (map (\<lambda>p. (pl_id p, f p)) P, tt) (r # S))
             = fst (foldl add_stat (map (\<lambda>p. (pl_id p, f' p)) P, tt') S)"
    by simp
  also have "\<dots> = map (\<lambda>p. (pl_id p, foldl add_to_player (f' p) (player_rows (pl_id p) S))) P"
    by (rule Cons.IH)
  also have "\<dots> = map (\<lambda>p. (pl_id p, foldl add_to_player (f p) (player_rows (pl_id p) (r # S)))) P"
    by (simp add: f'_def player_rows_def)
  finally show ?case .
qed

lemma team_totals_fold:
  "snd (accumulate P S)
     = foldl add_to_team
         \<lparr>points = 0, rebounds = 0, assists = 0, steals = 0, blocks = 0, gamesCount = 0\<rparr>
         (known_rows P S)"
proof -
  have "fst ` set (foldl init_player [] P) = pl_id ` set P"
    by (simp add: keys_init_players)
  then show ?thesis
    by (simp add: accumulate_def team_fold known_rows_def)
qed

lemma team_totals_known:
  "exact_rows (known_rows P S) \<Longrightarrow> raw_counts (snd (accumulate P S)) = totals (known_rows P S)"
  by (simp add: team_totals_fold team_fields)

lemma player_rows_known:
  "p \<in> set P \<Longrightarrow> player_rows (pl_id p) S = filter (\<lambda>r. st_player_id r = pl_id p) (known_rows P S)"
  by (auto simp: player_rows_def known_rows_def intro: filter_cong)

lemma average1_by_one:
  assumes "safe_total s"
  shows "average1 s 1 = 10 * s"
proof -
  define d where "d = 10 * s - average1 s 1"
  have "2 * \<bar>10 * s - average1 s 1 * 1\<bar> \<le> 1"
    using assms by (intro average1_nearest) (simp_all add: safe_total_def)
  then have "2 * \<bar>d\<bar> \<le> 1" by (simp add: d_def)
  then have "d = 0" by linarith
  then show ?thesis by (simp add: d_def)
qed

lemma nearest_all:
  "0 < g \<Longrightarrow> list_all safe_total xs \<Longrightarrow>
   list_all2 (\<lambda>t s. nearest_tenth t s g) (map (\<lambda>s. average1 s g) xs) xs"
  by (induction xs) (simp_all add: nearest_tenth_int average1_nearest safe_total_def)

lemma by_one_all:
  "list_all safe_total xs \<Longrightarrow> map (\<lambda>s. average1 s 1) xs = map (\<lambda>s. 10 * s) xs"
  by (induction xs) (simp_all add: average1_by_one)

lemma player_average_expected:
  assumes "player_rows (pl_id p) S \<noteq> []" and "exact_rows (player_rows (pl_id p) S)"
  shows "player_average (foldl add_to_player (zero_average p) (player_rows (pl_id p) S))
         = expected_average S p"
proof -
  define R where "R = player_rows (pl_id p) S"
  define a where "a = foldl add_to_player (zero_average p) R"
  have z: "gamesPlayed (zero_average p) = 0"
    "name (zero_average p) = pl_name p" "PlayerAverage.more (zero_average p) = ()"
    by (simp_all add: zero_average_def)
  from player_fields [of R p] assms(2) player_sums [of "zero_average p" R]
  have f: "raw_counts a = totals R" "gamesPlayed a = int (length R)" "name a = pl_name p"
    by (simp_all add: a_def z R_def)
  from assms have "gamesPlayed a \<noteq> 0"
    by (simp add: f R_def)
  then show ?thesis
    using f unfolding a_def [symmetric] R_def [symmetric]
    by (simp add: player_average_def expected_average_def Let_def R_def [symmetric]
        raw_counts_def totals_def)
qed

lemma gamesPlayed_player_average: "gamesPlayed (player_average a) = gamesPlayed a"
  by (simp add: player_average_def Let_def)

lemma renderings:
  "average1 10 1 = 100" "average1 5 1 = 50" "average1 2 1 = 20" "average1 1 1 = 10"
  "average1 0 1 = 0" "average1 30 2 = 150" "average1 8 2 = 40" "average1 6 2 = 30"
  "average1 1 2 = 5" "average1 30 1 = 300" "average1 8 1 = 80" "average1 6 1 = 60"
  by code_simp+

subsection \<open>Plain keys and a sum beyond the exact range\<close>

lemma uuid_plain_key:
  assumes "uuid_text k"
  shows "plain_key k"
proof -
  from assms have len: "length k = 36"
    by (simp add: uuid_text_def)
  from assms have each: "list_all (\<lambda>i. if i \<in> set [8, 13, 18, 23] then k ! i = CHR ''-''
                 else k ! i \<in> set ''0123456789abcdef'') [0..<36]"
    by (simp only: uuid_text_def)
  have "(8::nat) \<in> set [0..<36]"
    by simp
  with each have "if (8::nat) \<in> set [8, 13, 18, 23] then k ! 8 = CHR ''-''
                 else k ! 8 \<in> set ''0123456789abcdef''"
    unfolding list_all_iff by blast
  then have dash: "k ! 8 = CHR ''-''"
    by simp
  from len have "8 < length k"
    by simp
  then have "k ! 8 \<in> set k"
    by (rule nth_mem)
  then have mem: "CHR ''-'' \<in> set k"
    by (simp only: dash)
  have "\<not> integer_key k"
  proof
    assume "integer_key k"
    then have "\<forall>c \<in> set k. c \<in> set ''0123456789''"
      unfolding integer_key_def list_all_iff by blast
    with mem have "CHR ''-'' \<in> set ''0123456789''"
      by blast
    then show False
      by simp
  qed
  moreover have "\<not> inherited_key k"
  proof
    assume "inherited_key k"
    moreover have "\<forall>x \<in> set [''constructor'', ''__proto__'', ''hasOwnProperty'', ''isPrototypeOf'',
               ''propertyIsEnumerable'', ''toLocaleString'', ''toString'', ''valueOf'',
               ''__defineGetter__'', ''__defineSetter__'', ''__lookupGetter__'',
               ''__lookupSetter__'']. length x \<noteq> 36"
      by simp
    ultimately have "length k \<noteq> 36"
      unfolding inherited_key_def by blast
    with len show False
      by simp
  qed
  ultimately show ?thesis by (simp add: plain_key_def)
qed

lemma plain_examples: "plain_key ''p1''" "plain_key ''p2''" "plain_key ''p3''"
  by (simp_all add: plain_key_def integer_key_def inherited_key_def)

lemma round53_beyond: "round53 9007199254740993 = 9007199254740992"
  by code_simp

subsection \<open>Team totals\<close>

text \<open>
  C4. For plain keys and counters whose magnitudes add up to at most \<open>2 ^ 53\<close>, the team
  running sums and the count of records seen accumulate exactly the statistics records
  whose player identifier belongs to the players collection: each team sum is the sum of
  that field over those records, and \<open>gamesCount\<close> is their number.
\<close>

theorem team_totals_known_rows:
  assumes "plain_keys P S" and "exact_rows (known_rows P S)"
  shows "raw_counts (snd (accumulate P S)) = totals (known_rows P S)
   \<and> gamesCount (snd (accumulate P S)) = int (length (known_rows P S))"
proof -
  define z :: TeamTotals where
    "z = \<lparr>points = 0, rebounds = 0, assists = 0, steals = 0, blocks = 0, gamesCount = 0\<rparr>"
  define K where "K = known_rows P S"
  have acc: "snd (accumulate P S) = foldl add_to_team z K"
    by (simp add: team_totals_fold z_def K_def)
  have sums: "raw_counts (foldl add_to_team z K) = totals K"
    unfolding z_def using assms(2) by (simp only: K_def team_fields)
  have seen: "gamesCount (foldl add_to_team z K) = gamesCount z + int (length K)"
    using team_sums [of z K] by simp
  from sums have "raw_counts (snd (accumulate P S)) = totals K"
    by (simp add: acc)
  moreover from seen have "gamesCount (snd (accumulate P S)) = int (length K)"
    by (simp add: acc z_def)
  ultimately show ?thesis
    by (simp add: K_def)
qed

theorem team_totals_known_rows_witness:
  "plain_keys [a_player ''p1'' ''A'', a_player ''p2'' ''B'']
     [a_stat ''s1'' ''e1'' ''p1'' 10 5 2 1 0, a_stat ''s2'' ''e1'' ''p3'' 7 1 1 1 1,
      a_stat ''s3'' ''e2'' ''p2'' 3 0 0 0 2]
   \<and> exact_rows (known_rows [a_player ''p1'' ''A'', a_player ''p2'' ''B'']
       [a_stat ''s1'' ''e1'' ''p1'' 10 5 2 1 0, a_stat ''s2'' ''e1'' ''p3'' 7 1 1 1 1,
        a_stat ''s3'' ''e2'' ''p2'' 3 0 0 0 2])
   \<and> raw_counts (snd (accumulate [a_player ''p1'' ''A'', a_player ''p2'' ''B'']
       [a_stat ''s1'' ''e1'' ''p1'' 10 5 2 1 0, a_stat ''s2'' ''e1'' ''p3'' 7 1 1 1 1,
        a_stat ''s3'' ''e2'' ''p2'' 3 0 0 0 2]))
     = [13, 5, 2, 1, 2]
   \<and> gamesCount (snd (accumulate [a_player ''p1'' ''A'', a_player ''p2'' ''B'']
       [a_stat ''s1'' ''e1'' ''p1'' 10 5 2 1 0, a_stat ''s2'' ''e1'' ''p3'' 7 1 1 1 1,
        a_stat ''s3'' ''e2'' ''p2'' 3 0 0 0 2])) = 2"
proof -
  define P where "P = [a_player ''p1'' ''A'', a_player ''p2'' ''B'']"
  define S where "S = [a_stat ''s1'' ''e1'' ''p1'' 10 5 2 1 0, a_stat ''s2'' ''e1'' ''p3'' 7 1 1 1 1,
        a_stat ''s3'' ''e2'' ''p2'' 3 0 0 0 2]"
  have K: "known_rows P S = [a_stat ''s1'' ''e1'' ''p1'' 10 5 2 1 0, a_stat ''s3'' ''e2'' ''p2'' 3 0 0 0 2]"
    by (simp add: P_def S_def known_rows_def a_player_def a_stat_def)
  have h1: "plain_keys P S"
    by (simp add: P_def S_def plain_keys_def a_player_def a_stat_def plain_examples)
  have h2: "exact_rows (known_rows P S)"
    unfolding K by (simp add: exact_rows_def abs_totals_def a_stat_def)
  have "totals (known_rows P S) = [13, 5, 2, 1, 2]" "length (known_rows P S) = 2"
    unfolding K by (simp_all add: totals_def a_stat_def)
  with team_totals_known_rows [OF h1 h2] h1 h2 show ?thesis
    unfolding P_def [symmetric] S_def [symmetric] by simp
qed

text \<open>
  C4 as stated fails for a record of a player outside the players collection: the record
  of \<open>p2\<close> is skipped, so the team sums are those of the first record only.
\<close>

theorem team_totals_all_rows_counterexample:
  "raw_counts (snd (accumulate [a_player ''p1'' ''A'']
       [a_stat ''s1'' ''e1'' ''p1'' 10 5 2 1 0, a_stat ''s2'' ''e1'' ''p2'' 7 1 1 1 1]))
     = [10, 5, 2, 1, 0]
   \<and> totals [a_stat ''s1'' ''e1'' ''p1'' 10 5 2 1 0, a_stat ''s2'' ''e1'' ''p2'' 7 1 1 1 1]
     = [17, 6, 3, 2, 1]
   \<and> gamesCount (snd (accumulate [a_player ''p1'' ''A'']
       [a_stat ''s1'' ''e1'' ''p1'' 10 5 2 1 0, a_stat ''s2'' ''e1'' ''p2'' 7 1 1 1 1])) = 1"
  by (simp add: accumulate_def add_stat_def add_to_player_def add_to_team_def init_player_def
      zero_average_def a_player_def a_stat_def raw_counts_def totals_def js_add_exact)

subsection \<open>Team averages\<close>

text \<open>
  C1. For plain keys and counters whose magnitudes add up to a safe total: with \<open>g\<close>
  the larger of 1 and the number of game events, and the totals taken over the statistics
  rows that reference a player of the players collection, \<^verbatim>\<open>computeTeamAverages\<close>
  reports \<open>games = g\<close> and, for each of the five fields, the total over \<open>g\<close> rendered
  to one decimal, which is a tenth nearest to the exact quotient. With no game event the
  denominator is 1 and each average is the total itself.
\<close>

theorem computeTeamAverages_known_rows:
  assumes "plain_keys P S" and "safe_rows (known_rows P S)"
  shows "let K = known_rows P S; g = max 1 (int (length E)); T = computeTeamAverages P S E
         in games T = g
            \<and> raw_counts T = map (\<lambda>s. average1 s g) (totals K)
            \<and> list_all2 (\<lambda>t s. nearest_tenth t s g) (raw_counts T) (totals K)
            \<and> (E = [] \<longrightarrow> games T = 1 \<and> raw_counts T = map (\<lambda>s. 10 * s) (totals K))"
proof -
  define K where "K = known_rows P S"
  define g where "g = max 1 (int (length E))"
  define T where "T = computeTeamAverages P S E"
  have safe: "list_all safe_total (totals K)"
    using assms(2) unfolding K_def by (rule safe_rows_totals)
  have exact: "exact_rows (known_rows P S)"
    using assms(2) by (rule safe_rows_exact)
  have g: "(if E = [] then 1 else int (length E)) = g"
    by (cases E) (simp_all add: g_def)
  have gpos: "0 < g"
    by (simp add: g_def)
  have "raw_counts T = map (\<lambda>s. average1 s g) (raw_counts (snd (accumulate P S)))"
    by (simp add: T_def computeTeamAverages_def calculateAverages_def Let_def g raw_counts_def)
  then have counts: "raw_counts T = map (\<lambda>s. average1 s g) (totals K)"
    using exact by (simp add: team_totals_known K_def)
  have games: "games T = g"
    by (simp add: T_def computeTeamAverages_def calculateAverages_def Let_def g)
  have near: "list_all2 (\<lambda>t s. nearest_tenth t s g) (raw_counts T) (totals K)"
    unfolding counts using gpos safe by (simp only: nearest_all)
  have one: "raw_counts T = map (\<lambda>s. 10 * s) (totals K)" if "E = []"
  proof -
    from that have "g = 1" by (simp add: g_def)
    with counts safe show ?thesis by (simp add: by_one_all)
  qed
  have "E = [] \<longrightarrow> games T = 1"
    using games by (simp add: g_def)
  with games counts near one show ?thesis
    by (simp add: K_def [symmetric] g_def [symmetric] T_def [symmetric] Let_def)
qed

theorem computeTeamAverages_known_rows_witness:
  "plain_keys [a_player ''p1'' ''A'', a_player ''p2'' ''B'']
       [a_stat ''s1'' ''e1'' ''p1'' 10 5 2 1 0, a_stat ''s2'' ''e2'' ''p1'' 20 3 4 0 1]
   \<and> safe_rows (known_rows [a_player ''p1'' ''A'', a_player ''p2'' ''B'']
       [a_stat ''s1'' ''e1'' ''p1'' 10 5 2 1 0, a_stat ''s2'' ''e2'' ''p1'' 20 3 4 0 1])
   \<and> games (computeTeamAverages [a_player ''p1'' ''A'', a_player ''p2'' ''B'']
       [a_stat ''s1'' ''e1'' ''p1'' 10 5 2 1 0, a_stat ''s2'' ''e2'' ''p1'' 20 3 4 0 1]
       [a_game ''e1'' ''Aller'', a_game ''e2'' ''Retour'']) = 2
   \<and> raw_counts (computeTeamAverages [a_player ''p1'' ''A'', a_player ''p2'' ''B'']
       [a_stat ''s1'' ''e1'' ''p1'' 10 5 2 1 0, a_stat ''s2'' ''e2'' ''p1'' 20 3 4 0 1]
       [a_game ''e1'' ''Aller'', a_game ''e2'' ''Retour'']) = [150, 40, 30, 5, 5]
   \<and> games (computeTeamAverages [a_player ''p1'' ''A'', a_player ''p2'' ''B'']
       [a_stat ''s1'' ''e1'' ''p1'' 10 5 2 1 0, a_stat ''s2'' ''e2'' ''p1'' 20 3 4 0 1] []) = 1
   \<and> raw_counts (computeTeamAverages [a_player ''p1'' ''A'', a_player ''p2'' ''B'']
       [a_stat ''s1'' ''e1'' ''p1'' 10 5 2 1 0, a_stat ''s2'' ''e2'' ''p1'' 20 3 4 0 1] [])
       = [300, 80, 60, 10, 10]"
proof -
  define P where "P = [a_player ''p1'' ''A'', a_player ''p2'' ''B'']"
  define S where "S = [a_stat ''s1'' ''e1'' ''p1'' 10 5 2 1 0, a_stat ''s2'' ''e2'' ''p1'' 20 3 4 0 1]"
  have KS: "known_rows P S = S"
    by (simp add: P_def S_def known_rows_def a_player_def a_stat_def)
  have K: "totals (known_rows P S) = [30, 8, 6, 1, 1]"
    unfolding KS by (simp add: S_def totals_def a_stat_def)
  have h1: "plain_keys P S"
    by (simp add: P_def S_def plain_keys_def a_player_def a_stat_def plain_examples)
  have h2: "safe_rows (known_rows P S)"
    unfolding KS by (simp add: S_def safe_rows_def abs_totals_def safe_total_def a_stat_def)
  from computeTeamAverages_known_rows [OF h1 h2, of "[a_game ''e1'' ''Aller'', a_game ''e2'' ''Retour'']"]
       computeTeamAverages_known_rows [OF h1 h2, of "[]"] h1 h2
  show ?thesis
    unfolding P_def [symmetric] S_def [symmetric]
    by (simp add: Let_def K renderings)
qed

text \<open>
  C1 as stated fails in two places. With no game event the averages are the totals, not
  zero; and a row whose player is not in the players collection is not summed.
\<close>

theorem computeTeamAverages_counterexample:
  "raw_counts (computeTeamAverages [a_player ''p1'' ''A'']
       [a_stat ''s1'' ''e1'' ''p1'' 10 5 2 1 0] []) = [100, 50, 20, 10, 0]
   \<and> raw_counts (computeTeamAverages []
       [a_stat ''s1'' ''e1'' ''p1'' 10 5 2 1 0] [a_game ''e1'' ''Finale'']) = [0, 0, 0, 0, 0]
   \<and> totals [a_stat ''s1'' ''e1'' ''p1'' 10 5 2 1 0] = [10, 5, 2, 1, 0]
   \<and> \<not> nearest_tenth 0 10 1"
  by (simp add: computeTeamAverages_def calculateAverages_def accumulate_def add_stat_def
      add_to_player_def add_to_team_def init_player_def zero_average_def a_player_def a_stat_def
      raw_counts_def totals_def renderings nearest_tenth_def js_add_exact)

subsection \<open>Player averages\<close>

lemma players_accumulated:
  assumes "distinct (map pl_id P)"
  shows "fst (accumulate P S)
         = map (\<lambda>p. (pl_id p, foldl add_to_player (zero_average p) (player_rows (pl_id p) S))) P"
proof -
  have init: "foldl init_player [] P = map (\<lambda>p. (pl_id p, zero_average p)) P"
    using init_players_distinct [OF assms, of "[]"] by simp
  show ?thesis
    unfolding accumulate_def init using assms by (rule players_fold)
qed

lemma player_averages_listed:
  assumes "distinct (map pl_id P)"
  shows "computePlayerAverages P S
           = map (\<lambda>p. player_average (foldl add_to_player (zero_average p) (player_rows (pl_id p) S)))
               (filter (\<lambda>p. player_rows (pl_id p) S \<noteq> []) P)"
proof -
  define tot where "tot p = foldl add_to_player (zero_average p) (player_rows (pl_id p) S)" for p
  have acc: "fst (accumulate P S) = map (\<lambda>p. (pl_id p, tot p)) P"
    unfolding tot_def using assms by (rule players_accumulated)
  have played: "0 < gamesPlayed (player_average (tot p)) \<longleftrightarrow> player_rows (pl_id p) S \<noteq> []" for p
    using player_sums [of "zero_average p" "player_rows (pl_id p) S"]
    by (simp add: gamesPlayed_player_average tot_def zero_average_def)
  have "computePlayerAverages P S
          = filter (\<lambda>a. 0 < gamesPlayed a) (map (\<lambda>p. player_average (tot p)) P)"
    by (simp add: computePlayerAverages_def calculateAverages_def Let_def acc comp_def)
  also have "\<dots> = map (\<lambda>p. player_average (tot p)) (filter (\<lambda>p. player_rows (pl_id p) S \<noteq> []) P)"
    by (simp add: filter_map comp_def played)
  finally show ?thesis by (simp add: tot_def)
qed


lemma player_averages_expected:
  assumes "distinct (map pl_id P)" and "safe_rows (known_rows P S)"
  shows "computePlayerAverages P S
           = map (expected_average S) (filter (\<lambda>p. player_rows (pl_id p) S \<noteq> []) P)"
proof -
  have "player_average (foldl add_to_player (zero_average p) (player_rows (pl_id p) S))
          = expected_average S p"
    if "p \<in> set (filter (\<lambda>p. player_rows (pl_id p) S \<noteq> []) P)" for p
  proof -
    from that have p: "p \<in> set P" and rows: "player_rows (pl_id p) S \<noteq> []" by simp_all
    have "exact_rows (known_rows P S)"
      using assms(2) by (rule safe_rows_exact)
    then have "exact_rows (player_rows (pl_id p) S)"
      unfolding player_rows_known [OF p] by (rule exact_rows_filter)
    with rows show ?thesis by (rule player_average_expected)
  qed
  then show ?thesis
    unfolding player_averages_listed [OF assms(1)] by (intro map_cong refl)
qed

text \<open>
  C2. For players with distinct identifiers that are plain keys, and counters whose
  magnitudes add up to a safe total, \<^verbatim>\<open>computePlayerAverages\<close> returns, in the order of
  the players collection, one entry for each player that has at least one statistics row
  and none for the others; the entry of a player with \<open>n\<close> rows has \<open>gamesPlayed = n\<close>
  and, for each field, the sum over the player's rows divided by \<open>n\<close> and rendered to one
  decimal, a tenth nearest to the exact quotient.
\<close>

theorem computePlayerAverages_rows:
  assumes "distinct (map pl_id P)" and "plain_keys P S" and "safe_rows (known_rows P S)"
  shows "computePlayerAverages P S
           = map (expected_average S) (filter (\<lambda>p. player_rows (pl_id p) S \<noteq> []) P)
         \<and> (\<forall>p \<in> set P.
              let R = player_rows (pl_id p) S; n = int (length R)
              in R \<noteq> [] \<longrightarrow>
                   gamesPlayed (expected_average S p) = n
                   \<and> list_all2 (\<lambda>t s. nearest_tenth t s n) (raw_counts (expected_average S p)) (totals R))"
proof -
  note first = player_averages_expected [OF assms(1) assms(3)]
  have second: "gamesPlayed (expected_average S p) = int (length (player_rows (pl_id p) S))
      \<and> list_all2 (\<lambda>t s. nearest_tenth t s (int (length (player_rows (pl_id p) S))))
           (raw_counts (expected_average S p)) (totals (player_rows (pl_id p) S))"
    if p: "p \<in> set P" and rows: "player_rows (pl_id p) S \<noteq> []" for p
  proof -
    define R where "R = player_rows (pl_id p) S"
    have "safe_rows R"
      unfolding R_def player_rows_known [OF p] using assms(3) by (rule safe_rows_filter)
    then have safe: "list_all safe_total (totals R)"
      by (rule safe_rows_totals)
    have "raw_counts (expected_average S p) = map (\<lambda>s. average1 s (int (length R))) (totals R)"
      by (simp add: expected_average_def Let_def raw_counts_def totals_def R_def)
    moreover have "0 < int (length R)"
      using rows by (simp add: R_def)
    ultimately show ?thesis
      using safe nearest_all [of "int (length R)" "totals R"]
      by (simp add: R_def [symmetric] expected_average_def Let_def)
  qed
  from first second show ?thesis
    by (simp add: Let_def)
qed

theorem computePlayerAverages_rows_witness:
  "distinct (map pl_id [a_player ''p1'' ''A'', a_player ''p2'' ''B''])
   \<and> plain_keys [a_player ''p1'' ''A'', a_player ''p2'' ''B'']
       [a_stat ''s1'' ''e1'' ''p1'' 10 5 2 1 0, a_stat ''s2'' ''e2'' ''p1'' 20 3 4 0 1]
   \<and> safe_rows (known_rows [a_player ''p1'' ''A'', a_player ''p2'' ''B'']
       [a_stat ''s1'' ''e1'' ''p1'' 10 5 2 1 0, a_stat ''s2'' ''e2'' ''p1'' 20 3 4 0 1])
   \<and> computePlayerAverages [a_player ''p1'' ''A'', a_player ''p2'' ''B'']
       [a_stat ''s1'' ''e1'' ''p1'' 10 5 2 1 0, a_stat ''s2'' ''e2'' ''p1'' 20 3 4 0 1]
     = [\<lparr>points = 150, rebounds = 40, assists = 30, steals = 5, blocks = 5,
         name = ''A'', gamesPlayed = 2\<rparr>]"
proof -
  define P where "P = [a_player ''p1'' ''A'', a_player ''p2'' ''B'']"
  define S where "S = [a_stat ''s1'' ''e1'' ''p1'' 10 5 2 1 0, a_stat ''s2'' ''e2'' ''p1'' 20 3 4 0 1]"
  have KS: "known_rows P S = S"
    by (simp add: P_def S_def known_rows_def a_player_def a_stat_def)
  have h1: "distinct (map pl_id P)"
    by (simp add: P_def a_player_def)
  have h2: "plain_keys P S"
    by (simp add: P_def S_def plain_keys_def a_player_def a_stat_def plain_examples)
  have h3: "safe_rows (known_rows P S)"
    unfolding KS by (simp add: S_def safe_rows_def abs_totals_def safe_total_def a_stat_def)
  from computePlayerAverages_rows [OF h1 h2 h3] h1 h2 h3
  show ?thesis
    unfolding P_def [symmetric] S_def [symmetric]
    by (simp add: P_def S_def player_rows_def expected_average_def a_player_def a_stat_def
        Let_def renderings)
qed

text \<open>
  C2 as stated fails where a running sum leaves the integers that binary64 holds. A player
  has three rows with 9007199254740992, 1 and -9007199254740992 points: the sum of the
  field over the rows is 1, which over 3 games is 0.3, but the first two add up to
  9007199254740992 again, and the average shown is 0.
\<close>

theorem computePlayerAverages_counterexample:
  "computePlayerAverages [a_player ''p1'' ''A'']
       [a_stat ''s1'' ''e1'' ''p1'' 9007199254740992 0 0 0 0, a_stat ''s2'' ''e2'' ''p1'' 1 0 0 0 0,
        a_stat ''s3'' ''e3'' ''p1'' (- 9007199254740992) 0 0 0 0]
     = [\<lparr>points = 0, rebounds = 0, assists = 0, steals = 0, blocks = 0,
         name = ''A'', gamesPlayed = 3\<rparr>]
   \<and> totals [a_stat ''s1'' ''e1'' ''p1'' 9007199254740992 0 0 0 0, a_stat ''s2'' ''e2'' ''p1'' 1 0 0 0 0,
        a_stat ''s3'' ''e3'' ''p1'' (- 9007199254740992) 0 0 0 0]
     = [1, 0, 0, 0, 0]
   \<and> \<not> nearest_tenth 0 1 3"
  by (simp add: computePlayerAverages_def calculateAverages_def accumulate_def add_stat_def
      add_to_player_def add_to_team_def init_player_def zero_average_def player_average_def
      a_player_def a_stat_def totals_def average1_zero nearest_tenth_def
      js_add_def round53_exact round53_beyond)



section \<open>Requests\<close>

lemma request_unfold:
  "request serve w =
     (if faults w \<noteq> [] \<and> hd (faults w) then (Inl StoreError, w\<lparr>faults := tl (faults w)\<rparr>)
      else serve (w\<lparr>faults := tl (faults w)\<rparr>))"
proof (cases "faults w")
  case Nil
  then have "w\<lparr>faults := []\<rparr> = w" by (cases w) simp
  then have "serve (w\<lparr>faults := []\<rparr>) = serve w" by (rule arg_cong)
  then show ?thesis by (simp add: request_def Nil)
next
  case (Cons f fs)
  then show ?thesis by (simp add: request_def)
qed


section \<open>Writing a game\<close>

lemma gameData_consistent: "result_consistent ((gameData u v)\<lparr>ev_id := i\<rparr>)"
  by (cases "v_team_score v"; cases "v_opponent_score v")
     (auto simp: result_consistent_def gameData_def deriveGameResult_def js_less_def)

lemma gameData_scores:
  "ev_team_score ((gameData u v)\<lparr>ev_id := i\<rparr>) = v_team_score v"
  "ev_opponent_score ((gameData u v)\<lparr>ev_id := i\<rparr>) = v_opponent_score v"
  "ev_result ((gameData u v)\<lparr>ev_id := i\<rparr>)
     = deriveGameResult (form_score (v_team_score v)) (form_score (v_opponent_score v))"
  by (simp_all add: gameData_def)

lemma written_gameData: "written v ((gameData u v)\<lparr>ev_id := i\<rparr>)"
  by (simp add: written_def gameData_scores gameData_consistent)

lemma update_event_effect:
  "update_event i g w = (res, w') \<Longrightarrow>
     (res = Inr () \<and> events (db w') = map (\<lambda>r. if ev_id r = i then g\<lparr>ev_id := ev_id r\<rparr> else r) (events (db w)))
     \<or> (res = Inl StoreError \<and> db w' = db w)"
  by (auto simp: update_event_def request_unfold on_db_def split: if_splits)

lemma insert_event_effect:
  "insert_event g w = (res, w') \<Longrightarrow>
     (res = Inr () \<and> events (db w') = events (db w) @ [g\<lparr>ev_id := uuid w (issued w)\<rparr>])
     \<or> (res = Inl StoreError \<and> db w' = db w)"
  by (auto simp: insert_event_def request_unfold on_db_def fresh_def split: if_splits)

text \<open>
  C8. Whatever the game form writes, by insertion or by update, is written with the result
  derived from the submitted scores: every event row that a submit adds or changes holds
  the submitted scores and a result that agrees with them (win, loss or draw by
  comparison, null when a score is unset). A successful insertion appends one such row; after
  a successful update every row with the edited game's identifier is such a row.
\<close>

theorem onSubmit_result_consistent:
  assumes "onSubmit user editingGame values w = (t, w')"
  shows "(\<forall>r \<in> set (events (db w')). r \<notin> set (events (db w)) \<longrightarrow> written values r)
    \<and> (t = Success \<longrightarrow>
         (case editingGame of
            None \<Rightarrow> \<exists>r. events (db w') = events (db w) @ [r] \<and> written values r
          | Some game \<Rightarrow> \<forall>r \<in> set (events (db w')). ev_id r = ev_id game \<longrightarrow> written values r))"
proof (cases user)
  case None
  with assms show ?thesis by (simp add: onSubmit_def)
next
  case (Some u)
  show ?thesis
  proof (cases editingGame)
    case None
    obtain res w1 where call: "insert_event (gameData u values) w = (res, w1)"
      by (cases "insert_event (gameData u values) w")
    with assms Some None have tw: "t = (case res of Inl e \<Rightarrow> Destructive | Inr a \<Rightarrow> Success)" "w' = w1"
      by (auto simp: onSubmit_def report_def split: sum.splits)
    from insert_event_effect [OF call] show ?thesis
      using tw None written_gameData by auto
  next
    case (Some game)
    obtain res w1 where call: "update_event (ev_id game) (gameData u values) w = (res, w1)"
      by (cases "update_event (ev_id game) (gameData u values) w")
    with assms \<open>user = Some u\<close> Some
    have tw: "t = (case res of Inl e \<Rightarrow> Destructive | Inr a \<Rightarrow> Success)" "w' = w1"
      by (auto simp: onSubmit_def report_def split: sum.splits)
    from update_event_effect [OF call] show ?thesis
      using tw Some written_gameData by (auto split: if_splits)
  qed
qed

theorem onSubmit_result_consistent_witness:
  "let g = (a_game ''e1'' ''Finale'')\<lparr>ev_team_score := Some 2, ev_opponent_score := Some 3,
                                       ev_result := Some ''loss''\<rparr>;
       w = a_world \<lparr>players = [], events = [g], attendance = [], statistics = []\<rparr> [];
       edited = onSubmit (Some ''u1'') (Some g) (a_form (Some 5) (Some 3)) w;
       added = onSubmit (Some ''u1'') None (a_form (Some 4) None) w
   in fst edited = Success
      \<and> map ev_result (events (db (snd edited))) = [Some ''win'']
      \<and> list_all (written (a_form (Some 5) (Some 3))) (events (db (snd edited)))
      \<and> fst added = Success
      \<and> map ev_result (events (db (snd added))) = [Some ''loss'', None]
      \<and> written (a_form (Some 4) None) (last (events (db (snd added))))"
proof -
  define g where "g = (a_game ''e1'' ''Finale'')\<lparr>ev_team_score := Some 2,
    ev_opponent_score := Some 3, ev_result := Some ''loss''\<rparr>"
  define w where "w = a_world \<lparr>players = [], events = [g], attendance = [], statistics = []\<rparr> []"
  define edited where "edited = onSubmit (Some ''u1'') (Some g) (a_form (Some 5) (Some 3)) w"
  define added where "added = onSubmit (Some ''u1'') None (a_form (Some 4) None) w"
  have e: "fst edited = Success" "map ev_result (events (db (snd edited))) = [Some ''win'']"
    "map ev_id (events (db (snd edited))) = [ev_id g]" "length (events (db (snd edited))) = 1"
    by (simp_all add: edited_def w_def g_def onSubmit_def report_def update_event_def
        request_def a_world_def on_db_def gameData_def a_form_def a_game_def
        deriveGameResult_def js_less_def)
  have a: "fst added = Success" "map ev_result (events (db (snd added))) = [Some ''loss'', None]"
    "butlast (events (db (snd added))) = events (db w)" "events (db (snd added)) \<noteq> []"
    by (simp_all add: added_def w_def g_def onSubmit_def report_def insert_event_def
        request_def a_world_def on_db_def fresh_def gameData_def a_form_def a_game_def
        deriveGameResult_def js_less_def)
  from onSubmit_result_consistent [of "Some ''u1''" "Some g" "a_form (Some 5) (Some 3)" w
      "fst edited" "snd edited"] e
  have "list_all (written (a_form (Some 5) (Some 3))) (events (db (snd edited)))"
    by (cases "events (db (snd edited))") (simp_all add: edited_def)
  moreover
  from onSubmit_result_consistent [of "Some ''u1''" None "a_form (Some 4) None" w
      "fst added" "snd added"] a
  have "written (a_form (Some 4) None) (last (events (db (snd added))))"
    by (auto simp: added_def)
  ultimately show ?thesis
    using e a
    by (simp add: Let_def g_def [symmetric] w_def [symmetric] edited_def [symmetric]
        added_def [symmetric])
qed


section \<open>Deleting a player\<close>

lemma delete_statistics_effect:
  "db (snd (delete_statistics_of_player p w)) = db w
   \<or> db (snd (delete_statistics_of_player p w))
       = (db w)\<lparr>statistics := filter (\<lambda>r. st_player_id r \<noteq> p) (statistics (db w))\<rparr>"
  by (simp add: delete_statistics_of_player_def request_unfold on_db_def)

lemma delete_attendance_effect:
  "db (snd (delete_attendance_of_player p w)) = db w
   \<or> db (snd (delete_attendance_of_player p w))
       = (db w)\<lparr>attendance := filter (\<lambda>r. at_player_id r \<noteq> p) (attendance (db w))\<rparr>"
  by (simp add: delete_attendance_of_player_def request_unfold on_db_def)

lemma delete_player_effect:
  assumes "delete_player sfk afk p w = (Inr (), w')"
  shows "db w' = (db w)\<lparr>players := filter (\<lambda>r. pl_id r \<noteq> p) (players (db w)),
                         statistics := filter (\<lambda>r. st_player_id r \<noteq> p) (statistics (db w)),
                         attendance := filter (\<lambda>r. at_player_id r \<noteq> p) (attendance (db w))\<rparr>"
  using assms
  by (auto simp: delete_player_def request_unfold on_db_def Let_def split: if_splits)

text \<open>
  C9. When the deletion of a player \<open>p\<close> succeeds, no statistics row and no attendance
  row references \<open>p\<close>, the player row is gone, and what remains of the three tables is
  exactly the rows that did not reference \<open>p\<close>, unchanged and in their order; the events
  are unchanged. The two cascading deletes are issued first and their outcome is not
  inspected; a row they leave behind is caught by the store's foreign key when the player
  row is deleted.
\<close>

theorem deletePlayer_cascade:
  assumes "deletePlayer statistics_fk attendance_fk (Some p) w = (Success, w')"
  shows "unreferenced p (db w')
    \<and> list_all (\<lambda>r. pl_id r \<noteq> p) (players (db w'))
    \<and> statistics (db w') = filter (\<lambda>r. st_player_id r \<noteq> p) (statistics (db w))
    \<and> attendance (db w') = filter (\<lambda>r. at_player_id r \<noteq> p) (attendance (db w))
    \<and> players (db w') = filter (\<lambda>r. pl_id r \<noteq> p) (players (db w))
    \<and> events (db w') = events (db w)"
proof -
  define w1 where "w1 = snd (delete_statistics_of_player p w)"
  define w2 where "w2 = snd (delete_attendance_of_player p w1)"
  from assms have nonempty: "p \<noteq> []"
    by (auto simp: deletePlayer_def split: if_splits)
  with assms have "report (delete_player statistics_fk attendance_fk p w2) = (Success, w')"
    by (simp add: deletePlayer_def andThen_def ignore_response_def w1_def w2_def)
  then have last: "delete_player statistics_fk attendance_fk p w2 = (Inr (), w')"
    by (auto simp: report_def split: prod.splits sum.splits)
  note e3 = delete_player_effect [OF last]
  have s1: "statistics (db w1) = statistics (db w)
        \<or> statistics (db w1) = filter (\<lambda>r. st_player_id r \<noteq> p) (statistics (db w))"
    and o1: "attendance (db w1) = attendance (db w)" "players (db w1) = players (db w)"
      "events (db w1) = events (db w)"
    using delete_statistics_effect [of p w] by (auto simp: w1_def)
  have a2: "attendance (db w2) = attendance (db w1)
        \<or> attendance (db w2) = filter (\<lambda>r. at_player_id r \<noteq> p) (attendance (db w1))"
    and o2: "statistics (db w2) = statistics (db w1)" "players (db w2) = players (db w1)"
      "events (db w2) = events (db w1)"
    using delete_attendance_effect [of p w1] by (auto simp: w2_def)
  have st: "statistics (db w') = filter (\<lambda>r. st_player_id r \<noteq> p) (statistics (db w))"
    using s1 o2(1) by (auto simp: e3)
  have at: "attendance (db w') = filter (\<lambda>r. at_player_id r \<noteq> p) (attendance (db w))"
    using a2 o1(1) by (auto simp: e3)
  have pl: "players (db w') = filter (\<lambda>r. pl_id r \<noteq> p) (players (db w))"
    by (simp add: e3 o1 o2)
  have ev: "events (db w') = events (db w)"
    by (simp add: e3 o1 o2)
  show ?thesis
    by (simp add: unreferenced_def st at pl ev list_all_iff)
qed

theorem deletePlayer_cascade_witness:
  "let s = \<lparr>players = [a_player ''p1'' ''A'', a_player ''p2'' ''B''],
            events = [a_game ''e1'' ''Finale''],
            attendance = [a_presence ''a1'' ''e1'' ''p1'' True, a_presence ''a2'' ''e1'' ''p2'' False],
            statistics = [a_stat ''s1'' ''e1'' ''p1'' 10 5 2 1 0, a_stat ''s2'' ''e1'' ''p2'' 4 4 4 4 4]\<rparr>;
       fin = deletePlayer NoAction NoAction (Some ''p1'') (a_world s [])
   in fst fin = Success
      \<and> unreferenced ''p1'' (db (snd fin))
      \<and> statistics (db (snd fin)) = [a_stat ''s2'' ''e1'' ''p2'' 4 4 4 4 4]
      \<and> attendance (db (snd fin)) = [a_presence ''a2'' ''e1'' ''p2'' False]
      \<and> players (db (snd fin)) = [a_player ''p2'' ''B'']
      \<and> events (db (snd fin)) = [a_game ''e1'' ''Finale'']"
proof -
  define s where "s = \<lparr>players = [a_player ''p1'' ''A'', a_player ''p2'' ''B''],
            events = [a_game ''e1'' ''Finale''],
            attendance = [a_presence ''a1'' ''e1'' ''p1'' True, a_presence ''a2'' ''e1'' ''p2'' False],
            statistics = [a_stat ''s1'' ''e1'' ''p1'' 10 5 2 1 0, a_stat ''s2'' ''e1'' ''p2'' 4 4 4 4 4]\<rparr>"
  define fin where "fin = deletePlayer NoAction NoAction (Some ''p1'') (a_world s [])"
  have ok: "fst fin = Success"
    by (simp add: fin_def s_def deletePlayer_def report_def andThen_def ignore_response_def
        delete_statistics_of_player_def delete_attendance_of_player_def delete_player_def
        request_def a_world_def on_db_def a_stat_def a_presence_def a_player_def)
  then have "deletePlayer NoAction NoAction (Some ''p1'') (a_world s []) = (Success, snd fin)"
    by (simp add: fin_def prod_eq_iff)
  from deletePlayer_cascade [OF this] ok show ?thesis
    unfolding Let_def s_def [symmetric] fin_def [symmetric]
    by (simp add: s_def a_world_def a_stat_def a_presence_def a_player_def)
qed



section \<open>The statistics form\<close>

lemmas store_requests =
  select_event_title_single_def select_players_def select_statistics_of_event_def
  insert_statistics_def update_statistics_def request_def andThen_def report_def on_db_def
  fresh_def save_entry_def stat_counts_def

lemmas examples = a_store_def a_world_def a_player_def a_game_def a_stat_def

lemma loadData_db: "loadData collate u g form0 w = (t, form, w1) \<Longrightarrow>
   db w1 = db w \<and> uuid w1 = uuid w \<and> issued w1 = issued w"
  by (auto simp: loadData_def select_event_title_single_def select_players_def
      select_statistics_of_event_def request_unfold
      split: if_splits prod.splits sum.splits list.splits)

lemma loadData_success:
  assumes "loadData collate u g form0 w = (NoToast, form, w1)"
  shows "playerStats form
         = foldl (init_stat g (filter (\<lambda>r. st_event_id r = g \<and> st_user_id r = u) (statistics (db w))))
             [] (sort_key (collate \<circ> pl_name) (roster u (db w)))"
  using assms
  by (auto simp: loadData_def select_event_title_single_def select_players_def
      select_statistics_of_event_def request_unfold roster_def
      split: if_splits prod.splits sum.splits list.splits)

lemma loadData_failure:
  assumes "loadData collate u g form0 w = (t, form, w1)" "t \<noteq> NoToast"
  shows "playerStats form = playerStats form0"
  using assms
  by (auto simp: loadData_def select_event_title_single_def select_players_def
      select_statistics_of_event_def request_unfold
      split: if_splits prod.splits sum.splits list.splits)

lemma set_update_within: "set (AList.update k v al) \<subseteq> insert (k, v) (set al)"
  by (induction al) auto

lemma init_stats_entries:
  "set (foldl (init_stat g sd) acc P)
     \<subseteq> set acc \<union> (\<lambda>p. (pl_id p, stat_entry g sd (pl_id p))) ` set P"
proof (induction P arbitrary: acc)
  case Nil
  then show ?case by simp
next
  case (Cons p P)
  have "set (init_stat g sd acc p) \<subseteq> set acc \<union> {(pl_id p, stat_entry g sd (pl_id p))}"
    unfolding init_stat_def using set_update_within [of "pl_id p" _ acc] by auto
  with Cons.IH [of "init_stat g sd acc p"] show ?case by auto
qed

lemma init_stats_keys:
  "fst ` set (foldl (init_stat g sd) acc P) = fst ` set acc \<union> pl_id ` set P"
  by (induction P arbitrary: acc) (auto simp: init_stat_def dom_update)

lemma init_stats_distinct:
  "distinct (map fst acc) \<Longrightarrow> distinct (map fst (foldl (init_stat g sd) acc P))"
  by (induction P arbitrary: acc) (simp_all add: init_stat_def distinct_update)

lemma save_entry_effect:
  assumes "save_entry g u k e w = (res, w1)"
  shows "uuid w1 = uuid w \<and> players (db w1) = players (db w)
    \<and> ((res = Inl StoreError \<and> db w1 = db w)
       \<or> (res = Inr () \<and> has_id e
           \<and> statistics (db w1)
               = map (\<lambda>r. if st_id r = the (ps_id e)
                           then r\<lparr>points := points e, rebounds := rebounds e, assists := assists e,
                                  steals := steals e, blocks := blocks e\<rparr>
                           else r) (statistics (db w)))
       \<or> (res = Inr () \<and> \<not> has_id e
           \<and> statistics (db w1)
               = statistics (db w) @
                 [\<lparr>points = points e, rebounds = rebounds e, assists = assists e,
                   steals = steals e, blocks = blocks e,
                   st_id = uuid w (issued w), st_event_id = g, st_player_id = k,
                   st_user_id = u\<rparr>]))"
proof (cases "has_id e")
  case True
  then obtain i where i: "ps_id e = Some i" "i \<noteq> []"
    by (auto simp: has_id_def split: option.splits)
  with assms have "update_statistics i (stat_counts e) w = (res, w1)"
    by (simp add: save_entry_def)
  then show ?thesis
    using True i
    by (auto simp: update_statistics_def request_unfold on_db_def stat_counts_def
        split: if_splits)
next
  case False
  with assms have "insert_statistics k g u (stat_counts e) w = (res, w1)"
    by (auto simp: save_entry_def has_id_def split: option.splits if_splits)
  then show ?thesis
    using False
    by (auto simp: insert_statistics_def request_unfold on_db_def fresh_def stat_counts_def
        split: if_splits)
qed

lemma save_entry_keys:
  assumes "save_entry g u k e w = (res, w1)"
  shows "(res = Inl StoreError \<and> db w1 = db w)
    \<or> (res = Inr () \<and> map statistics_key (statistics (db w1))
          = map statistics_key (statistics (db w)) @ inserted_keys g u [(k, e)])"
proof -
  have same: "map statistics_key (map (\<lambda>r. if st_id r = i then r\<lparr>points := a, rebounds := b,
      assists := c, steals := d, blocks := f\<rparr> else r) rows) = map statistics_key rows"
    for i a b c d f rows
    by (induction rows) (simp_all add: statistics_key_def)
  from save_entry_effect [OF assms]
  consider "res = Inl StoreError" "db w1 = db w"
    | "res = Inr ()" "has_id e"
      "statistics (db w1)
         = map (\<lambda>r. if st_id r = the (ps_id e)
                     then r\<lparr>points := points e, rebounds := rebounds e, assists := assists e,
                            steals := steals e, blocks := blocks e\<rparr>
                     else r) (statistics (db w))"
    | "res = Inr ()" "\<not> has_id e"
      "statistics (db w1)
         = statistics (db w) @
           [\<lparr>points = points e, rebounds = rebounds e, assists = assists e,
             steals = steals e, blocks = blocks e,
             st_id = uuid w (issued w), st_event_id = g, st_player_id = k,
             st_user_id = u\<rparr>]"
    by blast
  then show ?thesis
  proof cases
    case 1
    then show ?thesis by simp
  next
    case 2
    from 2(3) have "map statistics_key (statistics (db w1)) = map statistics_key (statistics (db w))"
      by (simp only: same)
    with 2 show ?thesis by (simp add: inserted_keys_def)
  next
    case 3
    then show ?thesis by (simp add: inserted_keys_def statistics_key_def)
  qed
qed

lemma inserted_keys_Cons:
  "inserted_keys g u ((k, e) # es) = inserted_keys g u [(k, e)] @ inserted_keys g u es"
  by (simp add: inserted_keys_def)

lemma save_keys:
  "\<exists>n. map statistics_key (statistics (db (snd (saveAllStats_each g u es w))))
         = map statistics_key (statistics (db w)) @ take n (inserted_keys g u es)
       \<and> (fst (saveAllStats_each g u es w) = Inr () \<longrightarrow> length (inserted_keys g u es) \<le> n)"
proof (induction es arbitrary: w)
  case Nil
  then show ?case by (simp add: inserted_keys_def)
next
  case (Cons entry es)
  obtain k e where entry: "entry = (k, e)" by (cases entry)
  obtain res w1 where step: "save_entry g u k e w = (res, w1)"
    by (cases "save_entry g u k e w")
  from save_entry_keys [OF step] show ?case
  proof
    assume "res = Inl StoreError \<and> db w1 = db w"
    then have "saveAllStats_each g u (entry # es) w = (Inl StoreError, w1)" "db w1 = db w"
      using step by (simp_all add: entry andThen_def)
    then show ?thesis
      by (intro exI [of _ 0]) simp
  next
    assume ok: "res = Inr () \<and> map statistics_key (statistics (db w1))
          = map statistics_key (statistics (db w)) @ inserted_keys g u [(k, e)]"
    then have run: "saveAllStats_each g u (entry # es) w = saveAllStats_each g u es w1"
      using step by (simp add: entry andThen_def)
    from Cons.IH [of w1] obtain n where
      n: "map statistics_key (statistics (db (snd (saveAllStats_each g u es w1))))
            = map statistics_key (statistics (db w1)) @ take n (inserted_keys g u es)"
        "fst (saveAllStats_each g u es w1) = Inr () \<longrightarrow> length (inserted_keys g u es) \<le> n"
      by blast
    define m where "m = length (inserted_keys g u [(k, e)]) + n"
    have "take m (inserted_keys g u (entry # es))
          = inserted_keys g u [(k, e)] @ take n (inserted_keys g u es)"
      by (simp add: m_def entry inserted_keys_Cons [of g u k e es])
    moreover have "length (inserted_keys g u (entry # es))
          = length (inserted_keys g u [(k, e)]) + length (inserted_keys g u es)"
      by (simp add: entry inserted_keys_Cons [of g u k e es])
    ultimately show ?thesis
      using n ok by (intro exI [of _ m]) (simp add: run m_def)
  qed
qed

lemma init_stats_map_of:
  "map_of (foldl (init_stat g sd) acc P) k
     = (if k \<in> pl_id ` set P then Some (stat_entry g sd k) else map_of acc k)"
  by (induction P arbitrary: acc) (auto simp: init_stat_def update_conv)

text \<open>What a loaded form knows about the store it was loaded from.\<close>

lemma loaded_entries:
  assumes "loadData collate u g form0 w = (NoToast, form, w1)"
  defines "sd \<equiv> filter (\<lambda>r. st_event_id r = g \<and> st_user_id r = u) (statistics (db w))"
  shows "distinct (map fst (playerStats form))"
    and "fst ` set (playerStats form) = pl_id ` set (roster u (db w))"
    and "(k, e) \<in> set (playerStats form) \<Longrightarrow> e = stat_entry g sd k"
    and "k \<in> pl_id ` set (roster u (db w)) \<Longrightarrow> map_of (playerStats form) k = Some (stat_entry g sd k)"
proof -
  define P where "P = sort_key (collate \<circ> pl_name) (roster u (db w))"
  have form: "playerStats form = foldl (init_stat g sd) [] P"
    using loadData_success [OF assms(1)] by (simp add: sd_def P_def)
  have P: "set P = set (roster u (db w))"
    by (simp add: P_def)
  show d: "distinct (map fst (playerStats form))"
    unfolding form by (rule init_stats_distinct) simp
  show "fst ` set (playerStats form) = pl_id ` set (roster u (db w))"
    by (simp add: form init_stats_keys P)
  show m: "map_of (playerStats form) k = Some (stat_entry g sd k)"
    if "k \<in> pl_id ` set (roster u (db w))" for k
    using that by (simp add: form init_stats_map_of P)
  show "e = stat_entry g sd k" if "(k, e) \<in> set (playerStats form)"
  proof -
    from that have "(k, e) \<in> set acc \<union> (\<lambda>p. (pl_id p, stat_entry g sd (pl_id p))) ` set P"
      if "acc = []" for acc :: "(string \<times> PlayerStat) list"
      using init_stats_entries [of g sd "[]" P] by (auto simp: form)
    then show ?thesis by auto
  qed
qed

lemma stat_entry_cases:
  defines "keyed g u rows \<equiv> filter (\<lambda>r. st_event_id r = g \<and> st_user_id r = u) rows"
  shows "(g, k, u) \<notin> set (map statistics_key rows) \<Longrightarrow>
           stat_entry g (keyed g u rows) k
             = \<lparr>points = Some 0, rebounds = Some 0, assists = Some 0, steals = Some 0,
                blocks = Some 0, ps_id = None, ps_player_id = k, ps_event_id = g\<rparr>"
    and "(g, k, u) \<in> set (map statistics_key rows) \<Longrightarrow>
           \<exists>r \<in> set rows. statistics_key r = (g, k, u)
             \<and> ps_id (stat_entry g (keyed g u rows) k) = Some (st_id r)"
proof -
  show "stat_entry g (keyed g u rows) k
             = \<lparr>points = Some 0, rebounds = Some 0, assists = Some 0, steals = Some 0,
                blocks = Some 0, ps_id = None, ps_player_id = k, ps_event_id = g\<rparr>"
    if "(g, k, u) \<notin> set (map statistics_key rows)"
  proof -
    from that have "\<forall>r \<in> set (keyed g u rows). st_player_id r \<noteq> k"
      by (force simp: keyed_def statistics_key_def)
    then have "find (\<lambda>stat. st_player_id stat = k) (keyed g u rows) = None"
      by (simp add: find_None_iff)
    then show ?thesis by (simp add: stat_entry_def)
  qed
  show "\<exists>r \<in> set rows. statistics_key r = (g, k, u)
             \<and> ps_id (stat_entry g (keyed g u rows) k) = Some (st_id r)"
    if "(g, k, u) \<in> set (map statistics_key rows)"
  proof -
    from that obtain r0 where "r0 \<in> set (keyed g u rows)" "st_player_id r0 = k"
      by (force simp: keyed_def statistics_key_def)
    then have "find (\<lambda>stat. st_player_id stat = k) (keyed g u rows) \<noteq> None"
      by (auto simp: find_None_iff)
    then obtain r where r: "find (\<lambda>stat. st_player_id stat = k) (keyed g u rows) = Some r"
      by blast
    then have "r \<in> set (keyed g u rows)" "st_player_id r = k"
      by (auto simp: find_Some_iff)
    then have "r \<in> set rows" "statistics_key r = (g, k, u)"
      by (auto simp: keyed_def statistics_key_def)
    with r show ?thesis by (auto simp: stat_entry_def)
  qed
qed






subsection \<open>The loaded form and its changes\<close>


















subsection \<open>What a save writes\<close>












section \<open>At most one record per (event, player, owner)\<close>

lemma select_attendance_effect:
  assumes "select_attendance_maybeSingle ev p u w = (res, w1)"
  shows "db w1 = db w"
    and "res = Inr None \<Longrightarrow> (ev, p, u) \<notin> set (map attendance_key (attendance (db w)))"
proof -
  show "db w1 = db w"
    using assms
    by (auto simp: select_attendance_maybeSingle_def request_unfold
        split: if_splits list.splits)
  show "(ev, p, u) \<notin> set (map attendance_key (attendance (db w)))" if "res = Inr None"
  proof -
    from assms that
    have "filter (\<lambda>r. attendance_key r = (ev, p, u)) (attendance (db w)) = []"
      by (auto simp: select_attendance_maybeSingle_def request_unfold
          split: if_splits list.splits)
    then show ?thesis
      by (auto simp: filter_empty_conv)
  qed
qed

lemma update_attendance_keys:
  "map attendance_key (attendance (db (snd (update_attendance i present w))))
     = map attendance_key (attendance (db w))"
proof -
  have same: "map attendance_key (map (\<lambda>r. if at_id r = i then r\<lparr>at_present := present\<rparr> else r) rows)
      = map attendance_key rows" for rows
    by (induction rows) (simp_all add: attendance_key_def)
  have "attendance (db (snd (update_attendance i present w))) = attendance (db w)
      \<or> attendance (db (snd (update_attendance i present w)))
          = map (\<lambda>r. if at_id r = i then r\<lparr>at_present := present\<rparr> else r) (attendance (db w))"
    by (simp add: update_attendance_def request_unfold on_db_def)
  then show ?thesis
    by (elim disjE) (simp_all only: same)
qed

lemma insert_attendance_keys:
  "map attendance_key (attendance (db (snd (insert_attendance ev p u present w))))
     = map attendance_key (attendance (db w))
   \<or> map attendance_key (attendance (db (snd (insert_attendance ev p u present w))))
     = map attendance_key (attendance (db w)) @ [(ev, p, u)]"
  by (simp add: insert_attendance_def request_unfold on_db_def fresh_def attendance_key_def)

lemma saveAttendance_each_unique:
  "attendance_unique (db w) \<Longrightarrow>
   attendance_unique (db (snd (saveAttendance_each ev u pa w)))"
proof (induction pa arbitrary: w)
  case Nil
  then show ?case by simp
next
  case (Cons entry pa)
  obtain p present where entry: "entry = (p, present)" by (cases entry)
  obtain res w1 where look: "select_attendance_maybeSingle ev p u w = (res, w1)"
    by (cases "select_attendance_maybeSingle ev p u w")
  note sel = select_attendance_effect [OF look]
  show ?case
  proof (cases res)
    case (Inl err)
    with look Cons.prems sel(1) show ?thesis
      by (simp add: entry andThen_def)
  next
    case (Inr existing)
    define wr_op where "wr_op = (case existing of
        Some row \<Rightarrow> update_attendance (at_id row) present
      | None \<Rightarrow> insert_attendance ev p u present)"
    obtain res2 w2 where wr: "wr_op w1 = (res2, w2)"
      by (cases "wr_op w1")
    have u2: "attendance_unique (db w2)"
    proof (cases existing)
      case None
      with sel(2) Inr have "(ev, p, u) \<notin> set (map attendance_key (attendance (db w)))"
        by simp
      moreover from wr None have "w2 = snd (insert_attendance ev p u present w1)"
        by (simp add: wr_op_def)
      ultimately show ?thesis
        using insert_attendance_keys [of ev p u present w1] Cons.prems sel(1)
        by (auto simp: attendance_unique_def)
    next
      case (Some row)
      with wr have "w2 = snd (update_attendance (at_id row) present w1)"
        by (simp add: wr_op_def)
      then show ?thesis
        using update_attendance_keys [of "at_id row" present w1] Cons.prems sel(1)
        by (simp add: attendance_unique_def)
    qed
    have run: "saveAttendance_each ev u (entry # pa) w
        = (case res2 of Inl e \<Rightarrow> (Inl e, w2) | Inr a \<Rightarrow> saveAttendance_each ev u pa w2)"
      using look Inr wr by (simp add: entry andThen_def wr_op_def)
    show ?thesis
      unfolding run using u2 Cons.IH [OF u2] by (cases res2) simp_all
  qed
qed

lemma save_form_unique:
  assumes unique: "statistics_unique (db w)"
    and ids: "list_all (\<lambda>r. st_id r \<noteq> []) (statistics (db w))"
    and load: "loadData collate u g form0 w = (NoToast, form, w1)"
  shows "statistics_unique (db (snd (saveAllStats_each g u (playerStats form) w1)))"
proof -
  define rows where "rows = statistics (db w)"
  define sd where "sd = filter (\<lambda>r. st_event_id r = g \<and> st_user_id r = u) rows"
  define new where "new = inserted_keys g u (playerStats form)"
  note same = loadData_db [OF load]
  from save_keys [of g u "playerStats form" w1] obtain n where
    keys: "map statistics_key (statistics (db (snd (saveAllStats_each g u (playerStats form) w1))))
       = map statistics_key rows @ take n new"
    by (auto simp: same rows_def new_def)
  have "distinct (map fst (filter (\<lambda>entry. \<not> has_id (snd entry)) (playerStats form)))"
    using loaded_entries(1) [OF load] by (rule distinct_map_filter)
  then have "distinct (map (\<lambda>k. (g, k, u)) (map fst (filter (\<lambda>entry. \<not> has_id (snd entry)) (playerStats form))))"
    by (subst distinct_map) (simp add: inj_on_def)
  then have d_new: "distinct new"
    by (simp add: new_def inserted_keys_def comp_def)
  have apart: "key \<notin> set (map statistics_key rows)" if "key \<in> set new" for key
  proof
    assume known: "key \<in> set (map statistics_key rows)"
    from that obtain k e where ke: "(k, e) \<in> set (playerStats form)" "\<not> has_id e" "key = (g, k, u)"
      by (auto simp: new_def inserted_keys_def)
    from loaded_entries(3) [OF load ke(1)] have e: "e = stat_entry g sd k"
      by (simp add: sd_def rows_def)
    from stat_entry_cases(2) [of g k u rows] known ke(3) obtain r where
      "r \<in> set rows" "ps_id e = Some (st_id r)"
      by (auto simp: e sd_def)
    moreover from this ids have "st_id r \<noteq> []"
      by (simp add: rows_def list_all_iff)
    ultimately have "has_id e" by (simp add: has_id_def)
    with ke(2) show False by simp
  qed
  have "distinct (map statistics_key rows @ take n new)"
    using unique d_new apart
    by (auto simp: statistics_unique_def rows_def dest: in_set_takeD)
  then show ?thesis
    by (simp add: statistics_unique_def keys)
qed

text \<open>
  What the two write paths keep. Saving attendance looks each key up in the store before
  it writes, and keeps attendance unique from any state, whatever requests fail. Saving
  statistics decides between update and insert by the identifiers the form was loaded
  with, and keeps statistics unique when the form was loaded from the state it saves to.
\<close>

lemma saves_keep_unique:
  "(attendance_unique (db w) \<longrightarrow>
      attendance_unique (db (snd (saveAttendance selectedEvent user_id playerAttendance w))))
   \<and> (statistics_unique (db w) \<and> list_all (\<lambda>r. st_id r \<noteq> []) (statistics (db w))
        \<and> loadData collate u g form0 w = (NoToast, form, w1) \<longrightarrow>
      statistics_unique (db (snd (saveAllStats (Some u) g form w1))))"
proof -
  have a: "attendance_unique (db (snd (saveAttendance selectedEvent user_id playerAttendance w)))"
    if "attendance_unique (db w)"
  proof (cases selectedEvent)
    case None
    with that show ?thesis by (simp add: saveAttendance_def)
  next
    case (Some ev)
    have "snd (report r) = snd r" for r :: "(error + unit) \<times> world"
      by (cases r) (auto simp: report_def split: sum.splits)
    with Some saveAttendance_each_unique [OF that, of ev user_id playerAttendance]
    show ?thesis by (simp add: saveAttendance_def)
  qed
  have s: "statistics_unique (db (snd (saveAllStats (Some u) g form w1)))"
    if "statistics_unique (db w)" "list_all (\<lambda>r. st_id r \<noteq> []) (statistics (db w))"
      "loadData collate u g form0 w = (NoToast, form, w1)"
  proof -
    have keep: "statistics_unique (db w1)"
      using that(1) loadData_db [OF that(3)] by (simp add: statistics_unique_def)
    have rep: "snd (report r) = snd r" for r :: "(error + unit) \<times> world"
      by (cases r) (auto simp: report_def split: sum.splits)
    show ?thesis
      using save_form_unique [OF that] keep by (simp add: saveAllStats_def rep)
  qed
  from a s show ?thesis by blast
qed

lemma retry_load:
  "loadData length ''u1'' ''e1'' initial_form (a_world (a_store []) [False, False, False, False, True])
   = (NoToast,
      \<lparr>form_players = [a_player ''p1'' ''A'', a_player ''p2'' ''B''],
       playerStats = [(''p1'', stat_entry ''e1'' [] ''p1''), (''p2'', stat_entry ''e1'' [] ''p2'')]\<rparr>,
      a_world (a_store []) [False, True])"
  by (simp add: loadData_def store_requests examples init_stat_def)

text \<open>
  C7 fails for the statistics path when a save is repeated. The form is loaded for a game
  without statistics; the first save inserts the row of \<open>p1\<close> and fails on \<open>p2\<close>; the
  form stays open with its entries unchanged, so the second save inserts the row of
  \<open>p1\<close> again. Both saves start from a state with at most one row per key.
\<close>

theorem saveAllStats_retry_duplicates:
  "let w0 = a_world (a_store []) [False, False, False, False, True];
       loaded = loadData length ''u1'' ''e1'' initial_form w0;
       form = fst (snd loaded);
       first_save = saveAllStats (Some ''u1'') ''e1'' form (snd (snd loaded));
       second_save = saveAllStats (Some ''u1'') ''e1'' form (snd first_save)
   in statistics_unique (db w0)
      \<and> fst loaded = NoToast
      \<and> fst first_save = Destructive
      \<and> statistics_unique (db (snd first_save))
      \<and> fst second_save = Success
      \<and> map statistics_key (statistics (db (snd second_save)))
          = [(''e1'', ''p1'', ''u1''), (''e1'', ''p1'', ''u1''), (''e1'', ''p2'', ''u1'')]
      \<and> \<not> statistics_unique (db (snd second_save))"
proof -
  define form where "form = \<lparr>form_players = [a_player ''p1'' ''A'', a_player ''p2'' ''B''],
       playerStats = [(''p1'', stat_entry ''e1'' [] ''p1''), (''p2'', stat_entry ''e1'' [] ''p2'')]\<rparr>"
  define w1 where "w1 = a_world (a_store []) [False, True]"
  define first_save where "first_save = saveAllStats (Some ''u1'') ''e1'' form w1"
  define second_save where "second_save = saveAllStats (Some ''u1'') ''e1'' form (snd first_save)"
  have f: "fst first_save = Destructive"
    "map statistics_key (statistics (db (snd first_save))) = [(''e1'', ''p1'', ''u1'')]"
    "faults (snd first_save) = []"
    by (simp_all add: first_save_def form_def w1_def saveAllStats_def store_requests examples
        stat_entry_def statistics_key_def)
  have s: "fst second_save = Success"
    "map statistics_key (statistics (db (snd second_save)))
          = [(''e1'', ''p1'', ''u1''), (''e1'', ''p1'', ''u1''), (''e1'', ''p2'', ''u1'')]"
    by (simp_all add: second_save_def first_save_def form_def w1_def saveAllStats_def
        store_requests examples stat_entry_def statistics_key_def)
  show ?thesis
    unfolding Let_def retry_load
    by (simp add: form_def [symmetric] w1_def [symmetric] first_save_def [symmetric]
        second_save_def [symmetric] f s statistics_unique_def)
      (simp add: examples)
qed

end
